theory Spec2Isabelle
  imports Complex_Main
begin

section \<open>Errors and their propagation\<close>

text \<open>
  Every exception of the Python source is a value: \<open>AssertionError\<close> is the failed
  \<^verbatim>\<open>assert\<close> of the constructor, \<open>ValueError\<close> the failed unpacking of
  \<^verbatim>\<open>x.shape\<close> into three names, \<open>IndexError\<close> and \<open>RuntimeError\<close> are raised by
  the tensor library.  \<open>thn\<close> sequences two steps and stops at the first error.
\<close>

datatype error = AssertionError | ValueError | IndexError | RuntimeError

definition thn :: "error + 'a \<Rightarrow> ('a \<Rightarrow> error + 'b) \<Rightarrow> error + 'b" where
  "thn m f = (case m of Inl e \<Rightarrow> Inl e | Inr a \<Rightarrow> f a)"

section \<open>Tensors\<close>

text \<open>
  A tensor is its shape and its elements in row-major (contiguous) order.  The
  inputs of both entry points are taken to be contiguous; element types are
  \<^verbatim>\<open>torch.long\<close> (64-bit integers, written as \<open>int\<close> with the wrap-around of
  every arithmetic result written out) and \<^verbatim>\<open>torch.float\<close>, whose values are
  idealised as real numbers.
\<close>

datatype 'a tensor = Tensor (shape: "nat list") (data: "'a list")

datatype dtensor = LongT "int tensor" | FloatT "real tensor"

definition numel :: "'a tensor \<Rightarrow> nat" where
  "numel t = prod_list (shape t)"

definition wf :: "'a tensor \<Rightarrow> bool" where
  "wf t \<longleftrightarrow> length (data t) = numel t"

fun d_shape :: "dtensor \<Rightarrow> nat list" where
  "d_shape (LongT t) = shape t"
| "d_shape (FloatT t) = shape t"

fun d_numel :: "dtensor \<Rightarrow> nat" where
  "d_numel (LongT t) = numel t"
| "d_numel (FloatT t) = numel t"

fun d_wf :: "dtensor \<Rightarrow> bool" where
  "d_wf (LongT t) = wf t"
| "d_wf (FloatT t) = wf t"

subsection \<open>Row-major addressing\<close>

fun strides :: "nat list \<Rightarrow> nat list" where
  "strides [] = []"
| "strides (d # ds) = prod_list ds # strides ds"

fun offset :: "nat list \<Rightarrow> nat list \<Rightarrow> nat" where
  "offset (st # sts) (i # is) = i * st + offset sts is"
| "offset _ _ = 0"

definition ravel :: "nat list \<Rightarrow> nat list \<Rightarrow> nat" where
  "ravel s mi = offset (strides s) mi"

fun unravel :: "nat list \<Rightarrow> nat \<Rightarrow> nat list" where
  "unravel [] k = []"
| "unravel (d # ds) k = (k div prod_list ds) # unravel ds (k mod prod_list ds)"

definition get :: "'a tensor \<Rightarrow> nat list \<Rightarrow> 'a" where
  "get t mi = data t ! ravel (shape t) mi"

subsection \<open>64-bit integers\<close>

definition int64 :: "int \<Rightarrow> bool" where
  "int64 v \<longleftrightarrow> - (2 ^ 63) \<le> v \<and> v < 2 ^ 63"

definition wrap64 :: "int \<Rightarrow> int" where
  "wrap64 v = (v + 2 ^ 63) mod 2 ^ 64 - 2 ^ 63"

subsection \<open>Shape operations\<close>

text \<open>
  \<^verbatim>\<open>view\<close> and \<^verbatim>\<open>reshape\<close> of a contiguous tensor keep the elements and
  replace the shape; one dimension may be \<open>-1\<close> and is then inferred.
\<close>

definition infer_size :: "int list \<Rightarrow> nat \<Rightarrow> error + nat list" where
  "infer_size dims n =
     (if list_ex (\<lambda>d. d < - 1) dims then Inl RuntimeError
      else if 1 < length (filter (\<lambda>d. d = - 1) dims) then Inl RuntimeError
      else
        let newsize = nat (prod_list (filter (\<lambda>d. d \<noteq> - 1) dims)) in
        if list_ex (\<lambda>d. d = - 1) dims then
          (if 0 < newsize \<and> n mod newsize = 0
           then Inr (map (\<lambda>d. if d = - 1 then n div newsize else nat d) dims)
           else Inl RuntimeError)
        else if n = newsize then Inr (map nat dims)
        else Inl RuntimeError)"

definition view :: "'a tensor \<Rightarrow> int list \<Rightarrow> error + 'a tensor" where
  "view t dims = thn (infer_size dims (numel t)) (\<lambda>s. Inr (Tensor s (data t)))"

definition reshape :: "'a tensor \<Rightarrow> int list \<Rightarrow> error + 'a tensor" where
  "reshape t dims = view t dims"

definition permute :: "'a tensor \<Rightarrow> nat list \<Rightarrow> error + 'a tensor" where
  "permute t p =
     (if sort p \<noteq> [0..<length (shape t)] then Inl RuntimeError
      else
        let s' = map (\<lambda>i. shape t ! i) p;
            st' = map (\<lambda>i. strides (shape t) ! i) p
        in Inr (Tensor s' (map (\<lambda>k. data t ! offset st' (unravel s' k)) [0..<prod_list s'])))"

definition contiguous :: "'a tensor \<Rightarrow> 'a tensor" where
  "contiguous t = t"

definition unsqueeze :: "'a tensor \<Rightarrow> nat \<Rightarrow> error + 'a tensor" where
  "unsqueeze t d =
     (if d \<le> length (shape t)
      then Inr (Tensor (take d (shape t) @ 1 # drop d (shape t)) (data t))
      else Inl IndexError)"

definition repeat :: "'a tensor \<Rightarrow> nat list \<Rightarrow> error + 'a tensor" where
  "repeat t reps =
     (if length reps < length (shape t) then Inl RuntimeError
      else
        let s = replicate (length reps - length (shape t)) 1 @ shape t;
            s' = map2 (*) s reps
        in Inr (Tensor s'
             (map (\<lambda>k. data t ! ravel s (map2 (mod) (unravel s' k) s)) [0..<prod_list s'])))"

text \<open>\<^verbatim>\<open>t[:, j]\<close> on the two-dimensional result of \<^verbatim>\<open>view(-1, 2)\<close>.\<close>

definition select_col :: "'a tensor \<Rightarrow> nat \<Rightarrow> error + 'a tensor" where
  "select_col t j =
     (case shape t of
        [K, C] \<Rightarrow>
          if j < C then Inr (Tensor [K] (map (\<lambda>i. data t ! (i * C + j)) [0..<K]))
          else Inl IndexError
      | _ \<Rightarrow> Inl IndexError)"

subsection \<open>Broadcasting and arithmetic\<close>

definition broadcast_shapes :: "nat list \<Rightarrow> nat list \<Rightarrow> error + nat list" where
  "broadcast_shapes s1 s2 =
     (let r = max (length s1) (length s2);
          a = replicate (r - length s1) 1 @ s1;
          b = replicate (r - length s2) 1 @ s2
      in if list_all (\<lambda>(x, y). x = y \<or> x = 1 \<or> y = 1) (zip a b)
         then Inr (map2 (\<lambda>x y. if x = 1 then y else x) a b)
         else Inl RuntimeError)"

definition expand :: "'a tensor \<Rightarrow> nat list \<Rightarrow> 'a tensor" where
  "expand t s =
     Tensor s
       (map (\<lambda>k. data t ! ravel (shape t)
                    (map2 (mod) (drop (length s - length (shape t)) (unravel s k)) (shape t)))
          [0..<prod_list s])"

definition binop :: "('a \<Rightarrow> 'b \<Rightarrow> 'c) \<Rightarrow> 'a tensor \<Rightarrow> 'b tensor \<Rightarrow> error + 'c tensor" where
  "binop f a b =
     thn (broadcast_shapes (shape a) (shape b))
       (\<lambda>s. Inr (Tensor s (map2 f (data (expand a s)) (data (expand b s)))))"

text \<open>An in-place operation cannot change the shape of its target.\<close>

definition binop_inplace :: "('a \<Rightarrow> 'b \<Rightarrow> 'a) \<Rightarrow> 'a tensor \<Rightarrow> 'b tensor \<Rightarrow> error + 'a tensor" where
  "binop_inplace f a b =
     thn (broadcast_shapes (shape a) (shape b))
       (\<lambda>s. if s = shape a then Inr (Tensor s (map2 f (data a) (data (expand b s))))
            else Inl RuntimeError)"

definition arange :: "nat \<Rightarrow> int tensor" where
  "arange n = Tensor [n] (map int [0..<n])"

text \<open>A Python integer operand has to fit a 64-bit scalar.\<close>

definition mul_inplace :: "int tensor \<Rightarrow> int \<Rightarrow> error + int tensor" where
  "mul_inplace t w =
     (if int64 w then Inr (Tensor (shape t) (map (\<lambda>v. wrap64 (v * w)) (data t)))
      else Inl RuntimeError)"

fun d_mul :: "dtensor \<Rightarrow> int \<Rightarrow> error + dtensor" where
  "d_mul (LongT t) w = map_sum id LongT (mul_inplace t w)"
| "d_mul (FloatT t) w =
     (if int64 w then Inr (FloatT (Tensor (shape t) (map (\<lambda>v. v * of_int w) (data t))))
      else Inl RuntimeError)"

fun d_add :: "dtensor \<Rightarrow> dtensor \<Rightarrow> error + dtensor" where
  "d_add (LongT a) (LongT b) = map_sum id LongT (binop (\<lambda>u v. wrap64 (u + v)) a b)"
| "d_add (LongT a) (FloatT b) = map_sum id FloatT (binop (\<lambda>u v. of_int u + v) a b)"
| "d_add (FloatT a) (LongT b) = map_sum id FloatT (binop (\<lambda>u v. u + of_int v) a b)"
| "d_add (FloatT a) (FloatT b) = map_sum id FloatT (binop (\<lambda>u v. u + v) a b)"

text \<open>
  \<^verbatim>\<open>a += b\<close> keeps the element type of \<open>a\<close>: a float result cannot be stored into
  an integer tensor.
\<close>

fun d_iadd :: "dtensor \<Rightarrow> dtensor \<Rightarrow> error + dtensor" where
  "d_iadd (LongT a) (LongT b) = map_sum id LongT (binop_inplace (\<lambda>u v. wrap64 (u + v)) a b)"
| "d_iadd (LongT a) (FloatT b) = Inl RuntimeError"
| "d_iadd (FloatT a) (LongT b) = map_sum id FloatT (binop_inplace (\<lambda>u v. u + of_int v) a b)"
| "d_iadd (FloatT a) (FloatT b) = map_sum id FloatT (binop_inplace (\<lambda>u v. u + v) a b)"

fun d_view :: "dtensor \<Rightarrow> int list \<Rightarrow> error + dtensor" where
  "d_view (LongT t) dims = map_sum id LongT (view t dims)"
| "d_view (FloatT t) dims = map_sum id FloatT (view t dims)"

fun d_permute :: "dtensor \<Rightarrow> nat list \<Rightarrow> error + dtensor" where
  "d_permute (LongT t) p = map_sum id LongT (permute t p)"
| "d_permute (FloatT t) p = map_sum id FloatT (permute t p)"

fun d_select_col :: "dtensor \<Rightarrow> nat \<Rightarrow> error + dtensor" where
  "d_select_col (LongT t) j = map_sum id LongT (select_col t j)"
| "d_select_col (FloatT t) j = map_sum id FloatT (select_col t j)"

fun d_repeat :: "dtensor \<Rightarrow> nat list \<Rightarrow> error + dtensor" where
  "d_repeat (LongT t) reps = map_sum id LongT (repeat t reps)"
| "d_repeat (FloatT t) reps = map_sum id FloatT (repeat t reps)"

text \<open>\<^verbatim>\<open>.long()\<close> rounds a float toward zero and leaves an integer tensor as it is.\<close>

definition trunc :: "real \<Rightarrow> int" where
  "trunc v = (if 0 \<le> v then \<lfloor>v\<rfloor> else \<lceil>v\<rceil>)"

fun long :: "dtensor \<Rightarrow> int tensor" where
  "long (LongT t) = t"
| "long (FloatT t) = Tensor (shape t) (map trunc (data t))"

definition zeros :: "int list \<Rightarrow> error + real tensor" where
  "zeros dims =
     (if list_ex (\<lambda>d. d < 0) dims \<or> \<not> int64 (prod_list dims) \<or> list_ex (\<lambda>d. \<not> int64 d) dims
      then Inl RuntimeError
      else Inr (Tensor (map nat dims) (replicate (nat (prod_list dims)) 0)))"

subsection \<open>Scatter\<close>

text \<open>
  \<^verbatim>\<open>self.scatter_(dim, index, src)\<close> visits the positions of \<open>index\<close> in row-major
  order and stores, for the position \<open>mi\<close>, the element \<open>src[mi]\<close> at \<open>self[mi']\<close>
  where \<open>mi'\<close> is \<open>mi\<close> with its component \<open>dim\<close> replaced by \<open>index[mi]\<close>;
  \<^verbatim>\<open>scatter_add_\<close> adds instead of storing.  The writes happen one after the other
  in this order, which is the order of the library's sequential kernel and the one
  the constructor's documentation relies on.
\<close>

definition scatter_step ::
  "('a \<Rightarrow> 'a \<Rightarrow> 'a) \<Rightarrow> nat list \<Rightarrow> nat \<Rightarrow> int tensor \<Rightarrow> 'a tensor \<Rightarrow> nat \<Rightarrow> 'a list \<Rightarrow> 'a list" where
  "scatter_step upd s axis index src k out =
     (let mi = unravel (shape index) k;
          a = ravel s (mi[axis := nat (data index ! k)])
      in out[a := upd (out ! a) (data src ! ravel (shape src) mi)])"

definition scatter_impl ::
  "('a \<Rightarrow> 'a \<Rightarrow> 'a) \<Rightarrow> 'a tensor \<Rightarrow> nat \<Rightarrow> int tensor \<Rightarrow> 'a tensor \<Rightarrow> error + 'a tensor" where
  "scatter_impl upd self axis index src =
     (if numel index = 0 then Inr self
      else if length (shape index) \<noteq> length (shape self)
              \<or> length (shape src) \<noteq> length (shape index)
              \<or> length (shape self) \<le> axis then Inl RuntimeError
      else if \<not> list_all (\<lambda>d. d = axis \<or> shape index ! d \<le> shape self ! d)
                   [0..<length (shape self)]
              \<or> \<not> list_all (\<lambda>d. shape index ! d \<le> shape src ! d) [0..<length (shape self)]
           then Inl RuntimeError
      else if \<not> list_all (\<lambda>i. 0 \<le> i \<and> i < int (shape self ! axis)) (data index)
           then Inl RuntimeError
      else Inr (Tensor (shape self)
                  (fold (scatter_step upd (shape self) axis index src) [0..<numel index]
                     (data self))))"

text \<open>
  The index has to be a \<^verbatim>\<open>torch.long\<close> tensor unless it is empty, and the source
  has to have the element type of the target, which \<^verbatim>\<open>torch.zeros\<close> made a float
  tensor.
\<close>

fun scatter_dtype ::
  "(real \<Rightarrow> real \<Rightarrow> real) \<Rightarrow> real tensor \<Rightarrow> nat \<Rightarrow> dtensor \<Rightarrow> dtensor \<Rightarrow> error + real tensor" where
  "scatter_dtype upd self axis (FloatT index) src =
     (if numel index \<noteq> 0 then Inl RuntimeError
      else case src of LongT _ \<Rightarrow> Inl RuntimeError | FloatT _ \<Rightarrow> Inr self)"
| "scatter_dtype upd self axis (LongT index) (LongT src) = Inl RuntimeError"
| "scatter_dtype upd self axis (LongT index) (FloatT src) = scatter_impl upd self axis index src"

definition scatter_inplace :: "real tensor \<Rightarrow> nat \<Rightarrow> dtensor \<Rightarrow> dtensor \<Rightarrow> error + real tensor" where
  "scatter_inplace self axis index src = scatter_dtype (\<lambda>old v. v) self axis index src"

definition scatter_add_inplace :: "real tensor \<Rightarrow> nat \<Rightarrow> dtensor \<Rightarrow> dtensor \<Rightarrow> error + real tensor" where
  "scatter_add_inplace self axis index src = scatter_dtype (\<lambda>old v. old + v) self axis index src"

section \<open>The scatter connection\<close>

record ScatterConnection =
  scatter_type :: string

definition init :: "string \<Rightarrow> error + ScatterConnection" where
  "init st =
     (let self = \<lparr>scatter_type = st\<rparr>
      in if scatter_type self \<in> set [''cover'', ''add''] then Inr self
         else Inl AssertionError)"

definition forward ::
  "ScatterConnection \<Rightarrow> dtensor \<Rightarrow> int \<times> int \<Rightarrow> dtensor \<Rightarrow> error + real tensor" where
  "forward self x spatial_size location =
     (case d_shape x of
        [B, M, N] \<Rightarrow>
          (case spatial_size of
             (H, W) \<Rightarrow>
               thn (d_view location [- 1, 2]) (\<lambda>index.
               thn (mul_inplace (arange B) (H * W)) (\<lambda>bias.
               thn (unsqueeze bias 1) (\<lambda>bias.
               thn (repeat bias [1, M]) (\<lambda>bias.
               thn (view bias [- 1]) (\<lambda>bias.
               thn (d_select_col index 0) (\<lambda>index0.
               thn (d_mul index0 W) (\<lambda>index0.
               thn (d_select_col index 1) (\<lambda>index1.
               thn (d_add index0 index1) (\<lambda>index.
               thn (d_iadd index (LongT bias)) (\<lambda>index.
               thn (d_repeat index [N, 1]) (\<lambda>index.
               thn (d_view x [- 1, int N]) (\<lambda>x.
               thn (d_permute x [1, 0]) (\<lambda>x.
               thn (zeros [int N, int B * H * W]) (\<lambda>output.
               thn (if scatter_type self = ''cover'' then scatter_inplace output 1 index x
                    else if scatter_type self = ''add'' then scatter_add_inplace output 1 index x
                    else Inr output) (\<lambda>output.
               thn (reshape output [int N, int B, H, W]) (\<lambda>output.
               thn (permute output [1, 0, 2, 3]) (\<lambda>output.
               Inr (contiguous output)))))))))))))))))))
      | _ \<Rightarrow> Inl ValueError)"

definition xy_forward ::
  "ScatterConnection \<Rightarrow> dtensor \<Rightarrow> int \<times> int \<Rightarrow> dtensor \<Rightarrow> dtensor \<Rightarrow> error + real tensor" where
  "xy_forward self x spatial_size coord_x coord_y =
     (case d_shape x of
        [BatchSize, Num, EmbeddingSize] \<Rightarrow>
          thn (d_permute x [0, 2, 1]) (\<lambda>x.
          (case spatial_size of
             (H, W) \<Rightarrow>
               thn (d_mul coord_x W) (\<lambda>cxw.
               thn (d_add cxw coord_y) (\<lambda>s.
               thn (Inr (long s)) (\<lambda>indices.
               thn (unsqueeze indices 1) (\<lambda>indices.
               thn (repeat indices [1, EmbeddingSize, 1]) (\<lambda>indices.
               thn (zeros [int BatchSize, int EmbeddingSize, H, W]) (\<lambda>output.
               thn (view output [int BatchSize, int EmbeddingSize, H * W]) (\<lambda>output.
               thn (if scatter_type self = ''cover'' then scatter_inplace output 2 (LongT indices) x
                    else if scatter_type self = ''add'' then scatter_add_inplace output 2 (LongT indices) x
                    else Inr output) (\<lambda>output.
               thn (view output [int BatchSize, int EmbeddingSize, H, W]) (\<lambda>output.
               Inr output)))))))))))
      | _ \<Rightarrow> Inl ValueError)"

section \<open>The addresses the entry points compute\<close>

text \<open>
  The linear address \<open>forward\<close> computes for an entity of batch element \<open>b\<close> at
  \<open>(row, col)\<close> (lines 81 to 83 of the source), and the one \<open>xy_forward\<close> computes
  within the batch element's own slice from integer coordinates (line 133).
\<close>

definition forward_address :: "int \<Rightarrow> int \<Rightarrow> nat \<Rightarrow> int \<Rightarrow> int \<Rightarrow> int" where
  "forward_address H W b row col =
     wrap64 (wrap64 (wrap64 (row * W) + col) + wrap64 (int b * (H * W)))"

definition xy_address :: "int \<Rightarrow> int \<Rightarrow> int \<Rightarrow> int" where
  "xy_address W cx cy = wrap64 (wrap64 (cx * W) + cy)"

text \<open>
  What a write does to the value a cell holds, by scatter type: \<^verbatim>\<open>scatter_\<close>
  replaces it, \<^verbatim>\<open>scatter_add_\<close> adds to it, and with any other scatter type
  neither branch of the entry points runs.
\<close>

definition write_policy :: "string \<Rightarrow> real \<Rightarrow> real \<Rightarrow> real" where
  "write_policy st old v = (if st = ''cover'' then v else if st = ''add'' then old + v else old)"

text \<open>
  The address of the \<open>j\<close>-th entity in flattening order (entity \<open>j mod M\<close> of batch
  element \<open>j div M\<close>), read from the elements \<open>ld\<close> of a location tensor of shape
  \<open>(B, M, 2)\<close>.
\<close>

definition location_address :: "int \<Rightarrow> int \<Rightarrow> nat \<Rightarrow> int list \<Rightarrow> nat \<Rightarrow> int" where
  "location_address H W M ld j = forward_address H W (j div M) (ld ! (j * 2)) (ld ! (j * 2 + 1))"

text \<open>
  The index \<open>xy_forward\<close> computes for the \<open>k\<close>-th entity in flattening order from
  coordinate tensors of either element type: the sum is formed in the promoted
  element type and only then converted by \<^verbatim>\<open>.long()\<close>.
\<close>

fun xy_index :: "int \<Rightarrow> dtensor \<Rightarrow> dtensor \<Rightarrow> nat \<Rightarrow> int" where
  "xy_index W (LongT cx) (LongT cy) k = xy_address W (data cx ! k) (data cy ! k)"
| "xy_index W (LongT cx) (FloatT cy) k = trunc (of_int (wrap64 (data cx ! k * W)) + data cy ! k)"
| "xy_index W (FloatT cx) (LongT cy) k = trunc (data cx ! k * of_int W + of_int (data cy ! k))"
| "xy_index W (FloatT cx) (FloatT cy) k = trunc (data cx ! k * of_int W + data cy ! k)"

section \<open>Entities and the cells they are written to\<close>

text \<open>
  A coordinate pair lies inside the grid when its first component is a row index
  below \<open>H\<close> and its second a column index below \<open>W\<close>.
\<close>

definition in_grid :: "int \<Rightarrow> int \<Rightarrow> int \<Rightarrow> int \<Rightarrow> bool" where
  "in_grid H W row col \<longleftrightarrow> 0 \<le> row \<and> row < H \<and> 0 \<le> col \<and> col < W"

text \<open>
  Entity \<open>m\<close> of batch element \<open>b\<close> is written to the cell \<open>(b', r, c)\<close> of the output
  when the address the entry point computes for it is the address of that cell:
  in the flat buffer of all batch elements for \<open>forward\<close>, in the slice of its own
  batch element for \<open>xy_forward\<close>.
\<close>

definition forward_targets :: "int \<Rightarrow> int \<Rightarrow> int tensor \<Rightarrow> nat \<Rightarrow> nat \<Rightarrow> nat \<Rightarrow> nat \<Rightarrow> nat \<Rightarrow> bool" where
  "forward_targets H W loc b m b' r c \<longleftrightarrow>
     forward_address H W b (get loc [b, m, 0]) (get loc [b, m, 1])
       = int (b' * (nat H * nat W) + r * nat W + c)"

definition xy_targets :: "int \<Rightarrow> dtensor \<Rightarrow> dtensor \<Rightarrow> nat \<Rightarrow> nat \<Rightarrow> nat \<Rightarrow> nat \<Rightarrow> bool" where
  "xy_targets W cx cy b m r c \<longleftrightarrow>
     xy_index W cx cy (ravel (d_shape cx) [b, m]) = int (r * nat W + c)"

text \<open>
  The sizes and products of sizes that the entry points hand to the library as
  64-bit integers: the scalars \<open>W\<close> and \<open>H * W\<close> and the dimensions of the
  accumulator and of its element count.
\<close>

definition fits_int64 :: "nat \<Rightarrow> nat \<Rightarrow> int \<Rightarrow> int \<Rightarrow> bool" where
  "fits_int64 B N H W \<longleftrightarrow>
     int64 H \<and> int64 W \<and> int64 (H * W) \<and> int64 (int B) \<and> int64 (int N)
     \<and> int64 (int B * H * W) \<and> int64 (int N * (int B * H * W))"

section \<open>The entry points on a store\<close>

text \<open>
  To say which tensors a call writes to, tensors are placed in a store: a list of
  storages, each a flat list of elements of one element type.  A tensor is a
  reference: the storage it reads, its shape, and for every element, in row-major
  order, the position of that element in the storage.  A view (\<^verbatim>\<open>view\<close>,
  \<^verbatim>\<open>reshape\<close> of a contiguous tensor, \<^verbatim>\<open>permute\<close>, \<^verbatim>\<open>unsqueeze\<close>, indexing)
  rearranges the positions and shares the storage; an operation that returns a new
  tensor allocates a storage at the end of the store; an in-place operation
  (\<^verbatim>\<open>mul_\<close>, \<^verbatim>\<open>+=\<close>, \<^verbatim>\<open>scatter_\<close>, \<^verbatim>\<open>scatter_add_\<close>) writes the storage of its
  target at the target's positions.  The values are those of the operations above.
\<close>

datatype buf = LongB "int list" | FloatB "real list"

type_synonym store = "buf list"

datatype ref = Ref (sid: nat) (rshape: "nat list") (pos: "nat list")

definition deref :: "store \<Rightarrow> ref \<Rightarrow> dtensor" where
  "deref st r =
     (case st ! sid r of
        LongB d \<Rightarrow> LongT (Tensor (rshape r) (map (\<lambda>p. d ! p) (pos r)))
      | FloatB d \<Rightarrow> FloatT (Tensor (rshape r) (map (\<lambda>p. d ! p) (pos r))))"

fun to_buf :: "dtensor \<Rightarrow> buf" where
  "to_buf (LongT t) = LongB (data t)"
| "to_buf (FloatT t) = FloatB (data t)"

definition alloc :: "store \<Rightarrow> dtensor \<Rightarrow> ref \<times> store" where
  "alloc st t = (Ref (length st) (d_shape t) [0..<d_numel t], st @ [to_buf t])"

definition put :: "'a list \<Rightarrow> nat list \<Rightarrow> 'a list \<Rightarrow> 'a list" where
  "put d ps vs = fold (\<lambda>(p, v) d. d[p := v]) (zip ps vs) d"

definition write_at :: "store \<Rightarrow> ref \<Rightarrow> dtensor \<Rightarrow> error + store" where
  "write_at st r t =
     (case (st ! sid r, t) of
        (LongB d, LongT v) \<Rightarrow> Inr (st[sid r := LongB (put d (pos r) (data v))])
      | (FloatB d, FloatT v) \<Rightarrow> Inr (st[sid r := FloatB (put d (pos r) (data v))])
      | _ \<Rightarrow> Inl RuntimeError)"

text \<open>
  A step takes the store and returns its result, or the exception it raises, with
  the store it leaves.  \<open>bind_st\<close> sequences two steps and stops at the first
  exception, \<open>lift_st\<close> is a step that leaves the store alone, \<open>new_st\<close> allocates
  the tensor computed from the store, \<open>inplace_st\<close> writes it to its target.
\<close>

type_synonym 'a step = "store \<Rightarrow> (error + 'a) \<times> store"

definition bind_st :: "'a step \<Rightarrow> ('a \<Rightarrow> 'b step) \<Rightarrow> 'b step" where
  "bind_st m f st =
     (case m st of
        (Inl e, st') \<Rightarrow> (Inl e, st')
      | (Inr a, st') \<Rightarrow> f a st')"

definition lift_st :: "error + 'a \<Rightarrow> 'a step" where
  "lift_st v st = (v, st)"

definition new_st :: "(store \<Rightarrow> error + dtensor) \<Rightarrow> ref step" where
  "new_st f st =
     (case f st of
        Inl e \<Rightarrow> (Inl e, st)
      | Inr t \<Rightarrow> (Inr (fst (alloc st t)), snd (alloc st t)))"

definition inplace_st :: "ref \<Rightarrow> (store \<Rightarrow> error + dtensor) \<Rightarrow> unit step" where
  "inplace_st r f st =
     (case thn (f st) (write_at st r) of
        Inl e \<Rightarrow> (Inl e, st)
      | Inr st' \<Rightarrow> (Inr (), st'))"

definition positions :: "ref \<Rightarrow> nat tensor" where
  "positions r = Tensor (rshape r) (pos r)"

definition as_ref :: "nat \<Rightarrow> nat tensor \<Rightarrow> ref" where
  "as_ref s t = Ref s (shape t) (data t)"

definition view_ref :: "ref \<Rightarrow> int list \<Rightarrow> error + ref" where
  "view_ref r dims = map_sum id (as_ref (sid r)) (view (positions r) dims)"

definition permute_ref :: "ref \<Rightarrow> nat list \<Rightarrow> error + ref" where
  "permute_ref r p = map_sum id (as_ref (sid r)) (permute (positions r) p)"

definition unsqueeze_ref :: "ref \<Rightarrow> nat \<Rightarrow> error + ref" where
  "unsqueeze_ref r d = map_sum id (as_ref (sid r)) (unsqueeze (positions r) d)"

definition select_col_ref :: "ref \<Rightarrow> nat \<Rightarrow> error + ref" where
  "select_col_ref r j = map_sum id (as_ref (sid r)) (select_col (positions r) j)"

text \<open>\<^verbatim>\<open>.contiguous()\<close> and \<^verbatim>\<open>.long()\<close> return their argument when there is nothing to do.\<close>

definition contiguous_st :: "ref \<Rightarrow> ref step" where
  "contiguous_st r =
     (if (case pos r of [] \<Rightarrow> True | p # _ \<Rightarrow> pos r = [p..<p + length (pos r)])
      then lift_st (Inr r) else new_st (\<lambda>st. Inr (deref st r)))"

definition long_st :: "ref \<Rightarrow> ref step" where
  "long_st r st =
     (case deref st r of
        LongT _ \<Rightarrow> (Inr r, st)
      | FloatT t \<Rightarrow> new_st (\<lambda>_. Inr (LongT (long (FloatT t)))) st)"

fun the_float :: "dtensor \<Rightarrow> error + real tensor" where
  "the_float (FloatT t) = Inr t"
| "the_float (LongT t) = Inl RuntimeError"

definition forward_st ::
  "ScatterConnection \<Rightarrow> ref \<Rightarrow> int \<times> int \<Rightarrow> ref \<Rightarrow> ref step" where
  "forward_st self x spatial_size location =
     (case rshape x of
        [B, M, N] \<Rightarrow>
          (case spatial_size of
             (H, W) \<Rightarrow>
               bind_st (lift_st (view_ref location [- 1, 2])) (\<lambda>index.
               bind_st (new_st (\<lambda>st. Inr (LongT (arange B)))) (\<lambda>bias.
               bind_st (inplace_st bias (\<lambda>st. d_mul (deref st bias) (H * W))) (\<lambda>_.
               bind_st (lift_st (unsqueeze_ref bias 1)) (\<lambda>bias.
               bind_st (new_st (\<lambda>st. d_repeat (deref st bias) [1, M])) (\<lambda>bias.
               bind_st (lift_st (view_ref bias [- 1])) (\<lambda>bias.
               bind_st (lift_st (select_col_ref index 0)) (\<lambda>index0.
               bind_st (new_st (\<lambda>st. d_mul (deref st index0) W)) (\<lambda>index0.
               bind_st (lift_st (select_col_ref index 1)) (\<lambda>index1.
               bind_st (new_st (\<lambda>st. d_add (deref st index0) (deref st index1))) (\<lambda>index.
               bind_st (inplace_st index (\<lambda>st. d_iadd (deref st index) (deref st bias))) (\<lambda>_.
               bind_st (new_st (\<lambda>st. d_repeat (deref st index) [N, 1])) (\<lambda>index.
               bind_st (lift_st (view_ref x [- 1, int N])) (\<lambda>x.
               bind_st (lift_st (permute_ref x [1, 0])) (\<lambda>x.
               bind_st (new_st (\<lambda>st. map_sum id FloatT (zeros [int N, int B * H * W]))) (\<lambda>output.
               bind_st (if scatter_type self = ''cover''
                        then inplace_st output (\<lambda>st.
                               thn (the_float (deref st output)) (\<lambda>out.
                                 map_sum id FloatT
                                   (scatter_inplace out 1 (deref st index) (deref st x))))
                        else if scatter_type self = ''add''
                        then inplace_st output (\<lambda>st.
                               thn (the_float (deref st output)) (\<lambda>out.
                                 map_sum id FloatT
                                   (scatter_add_inplace out 1 (deref st index) (deref st x))))
                        else lift_st (Inr ())) (\<lambda>_.
               bind_st (lift_st (view_ref output [int N, int B, H, W])) (\<lambda>output.
               bind_st (lift_st (permute_ref output [1, 0, 2, 3])) (\<lambda>output.
               contiguous_st output)))))))))))))))))))
      | _ \<Rightarrow> lift_st (Inl ValueError))"

definition xy_forward_st ::
  "ScatterConnection \<Rightarrow> ref \<Rightarrow> int \<times> int \<Rightarrow> ref \<Rightarrow> ref \<Rightarrow> ref step" where
  "xy_forward_st self x spatial_size coord_x coord_y =
     (case rshape x of
        [BatchSize, Num, EmbeddingSize] \<Rightarrow>
          bind_st (lift_st (permute_ref x [0, 2, 1])) (\<lambda>x.
          (case spatial_size of
             (H, W) \<Rightarrow>
               bind_st (new_st (\<lambda>st. d_mul (deref st coord_x) W)) (\<lambda>cxw.
               bind_st (new_st (\<lambda>st. d_add (deref st cxw) (deref st coord_y))) (\<lambda>s.
               bind_st (long_st s) (\<lambda>indices.
               bind_st (lift_st (unsqueeze_ref indices 1)) (\<lambda>indices.
               bind_st (new_st (\<lambda>st. d_repeat (deref st indices) [1, EmbeddingSize, 1]))
                 (\<lambda>indices.
               bind_st (new_st (\<lambda>st. map_sum id FloatT
                          (zeros [int BatchSize, int EmbeddingSize, H, W]))) (\<lambda>output.
               bind_st (lift_st (view_ref output [int BatchSize, int EmbeddingSize, H * W]))
                 (\<lambda>output.
               bind_st (if scatter_type self = ''cover''
                        then inplace_st output (\<lambda>st.
                               thn (the_float (deref st output)) (\<lambda>out.
                                 map_sum id FloatT
                                   (scatter_inplace out 2 (deref st indices) (deref st x))))
                        else if scatter_type self = ''add''
                        then inplace_st output (\<lambda>st.
                               thn (the_float (deref st output)) (\<lambda>out.
                                 map_sum id FloatT
                                   (scatter_add_inplace out 2 (deref st indices) (deref st x))))
                        else lift_st (Inr ())) (\<lambda>_.
               lift_st (view_ref output [int BatchSize, int EmbeddingSize, H, W])))))))))))
      | _ \<Rightarrow> lift_st (Inl ValueError))"

text \<open>
  A step preserves the first \<open>n\<close> storages when, run on any store that has them,
  it leaves them as they are and does not shrink the store, also when it raises;
  \<open>P\<close> is what a returned result satisfies.
\<close>

definition preserves :: "nat \<Rightarrow> ('a \<Rightarrow> bool) \<Rightarrow> 'a step \<Rightarrow> bool" where
  "preserves n P m \<longleftrightarrow>
     (\<forall>st. n \<le> length st \<longrightarrow>
        (case m st of
           (res, st') \<Rightarrow>
             take n st' = take n st \<and> length st \<le> length st'
             \<and> (case res of Inl e \<Rightarrow> True | Inr a \<Rightarrow> P a)))"

section \<open>Basic facts\<close>

lemma thn_Inr [simp]: "thn (Inr a) f = f a"
  by (simp add: thn_def)

lemma thn_Inl [simp]: "thn (Inl e) f = Inl e"
  by (simp add: thn_def)

lemma thn_eq_Inr: "thn m f = Inr y \<longleftrightarrow> (\<exists>a. m = Inr a \<and> f a = Inr y)"
  by (cases m) simp_all

lemma wrap64_id: "int64 v \<Longrightarrow> wrap64 v = v"
  by (simp add: int64_def wrap64_def)

lemma fold_update_length:
  "length (fold (\<lambda>k out. out[adr k := g k out]) ks out) = length out"
  by (induction ks arbitrary: out) simp_all

lemma fold_update_nth:
  "(\<And>k. k \<in> set ks \<Longrightarrow> adr k < length out) \<Longrightarrow> a < length out \<Longrightarrow>
   fold (\<lambda>k out. out[adr k := upd (out ! adr k) (val k)]) ks out ! a
       = fold (\<lambda>k acc. if adr k = a then upd acc (val k) else acc) ks (out ! a)"
proof (induction ks arbitrary: out)
  case Nil
  then show ?case by simp
next
  case (Cons k ks)
  let ?o = "out[adr k := upd (out ! adr k) (val k)]"
  have len: "length ?o = length out" by simp
  have "fold (\<lambda>k out. out[adr k := upd (out ! adr k) (val k)]) ks ?o ! a
      = fold (\<lambda>k acc. if adr k = a then upd acc (val k) else acc) ks (?o ! a)"
    apply (rule Cons.IH)
    using Cons.prems(1) apply (simp only: len list.set insert_iff) apply blast
    using Cons.prems(2) apply (simp only: len)
    done
  moreover have "?o ! a = (if adr k = a then upd (out ! a) (val k) else out ! a)"
    using Cons.prems(2) by (simp add: nth_list_update)
  ultimately show ?case by simp
qed

lemma ravel_Nil [simp]: "ravel [] mi = 0"
  by (simp add: ravel_def)

lemma ravel_Cons [simp]: "ravel (d # ds) (i # is) = i * prod_list ds + ravel ds is"
  by (simp add: ravel_def)

lemma ravel_lt:
  "list_all2 (<) mi s \<Longrightarrow> ravel s mi < prod_list s"
proof (induction mi s rule: list_all2_induct)
  case Nil
  then show ?case by simp
next
  case (Cons i mi d s)
  have "i * prod_list s + ravel s mi < i * prod_list s + prod_list s"
    using Cons.IH by simp
  also have "\<dots> = (Suc i) * prod_list s" by simp
  also have "\<dots> \<le> d * prod_list s"
    using Cons.hyps(1) by (intro mult_le_mono1) simp
  finally show ?case by simp
qed

lemma unravel_ravel:
  "list_all2 (<) mi s \<Longrightarrow> unravel s (ravel s mi) = mi"
proof (induction mi s rule: list_all2_induct)
  case Nil
  then show ?case by simp
next
  case (Cons i mi d s)
  have lt: "ravel s mi < prod_list s" using Cons.hyps(2) by (rule ravel_lt)
  then show ?case using Cons.IH by simp
qed

lemma length_unravel [simp]: "length (unravel s k) = length s"
  by (induction s arbitrary: k) simp_all

lemma unravel_lt:
  "k < prod_list s \<Longrightarrow> list_all2 (<) (unravel s k) s"
proof (induction s arbitrary: k)
  case Nil
  then show ?case by simp
next
  case (Cons d s)
  have pos: "0 < prod_list s" using Cons.prems by (cases "prod_list s = 0") simp_all
  have "k div prod_list s < d"
    using Cons.prems pos by (simp add: less_mult_imp_div_less mult.commute)
  moreover have "list_all2 (<) (unravel s (k mod prod_list s)) s"
    using pos by (intro Cons.IH) simp
  ultimately show ?case by simp
qed

lemma ravel_unravel:
  "k < prod_list s \<Longrightarrow> ravel s (unravel s k) = k"
proof (induction s arbitrary: k)
  case Nil
  then show ?case by simp
next
  case (Cons d s)
  have pos: "0 < prod_list s" using Cons.prems by (cases "prod_list s = 0") simp_all
  have "ravel s (unravel s (k mod prod_list s)) = k mod prod_list s"
    using pos by (intro Cons.IH) simp
  then show ?case by simp
qed

lemma map2_mod_id:
  "list_all2 (<) mi s \<Longrightarrow> map2 (mod) mi s = (mi :: nat list)"
  by (induction mi s rule: list_all2_induct) simp_all

lemma map_nth_upt: "length xs = n \<Longrightarrow> map (\<lambda>k. xs ! k) [0..<n] = xs"
  using map_nth [of xs] by simp

lemma expand_same: "wf t \<Longrightarrow> expand t (shape t) = t"
proof -
  assume w: "wf t"
  have "map (\<lambda>k. data t ! ravel (shape t) (map2 (mod) (unravel (shape t) k) (shape t)))
          [0..<prod_list (shape t)]
      = map (\<lambda>k. data t ! k) [0..<prod_list (shape t)]"
    by (rule map_cong) (simp_all add: map2_mod_id unravel_lt ravel_unravel)
  also have "\<dots> = data t"
    using w by (simp add: wf_def numel_def map_nth_upt)
  finally show ?thesis
    by (cases t) (simp add: expand_def)
qed

section \<open>The tensor operations at the shapes the entry points use\<close>

lemma view_rows:
  "view t [- 1, int c] =
     (if 0 < c \<and> numel t mod c = 0 then Inr (Tensor [numel t div c, c] (data t))
      else Inl RuntimeError)"
  by (simp add: view_def infer_size_def)

lemma view_flat: "view t [- 1] = Inr (Tensor [numel t] (data t))"
  by (simp add: view_def infer_size_def)

lemma view_nonneg:
  "list_all (\<lambda>d. 0 \<le> d) dims \<Longrightarrow>
   view t dims = (if numel t = nat (prod_list dims) then Inr (Tensor (map nat dims) (data t))
                  else Inl RuntimeError)"
proof -
  assume a: "list_all (\<lambda>d. 0 \<le> d) dims"
  then have 1: "\<not> list_ex (\<lambda>d. d < - 1) dims" "\<not> list_ex (\<lambda>d. d = - 1) dims"
    by (auto simp: list_all_iff list_ex_iff)
  have 2: "filter (\<lambda>d. d = - 1) dims = []" "filter (\<lambda>d. d \<noteq> - 1) dims = dims"
    using a by (auto simp: list_all_iff filter_empty_conv filter_id_conv)
  show ?thesis
    by (simp add: view_def infer_size_def 1 2)
qed

lemma unsqueeze_1d: "unsqueeze (Tensor [n] d) 1 = Inr (Tensor [n, 1] d)"
  by (simp add: unsqueeze_def)

lemma unsqueeze_2d: "unsqueeze (Tensor [a, b] d) 1 = Inr (Tensor [a, 1, b] d)"
  by (simp add: unsqueeze_def)

lemma select_col_2d:
  "select_col (Tensor [K, C] d) j =
     (if j < C then Inr (Tensor [K] (map (\<lambda>i. d ! (i * C + j)) [0..<K])) else Inl IndexError)"
  by (simp add: select_col_def)

lemma repeat_cols:
  "repeat (Tensor [B, 1] d) [1, M] = Inr (Tensor [B, M] (map (\<lambda>k. d ! (k div M)) [0..<B * M]))"
proof -
  have "map (\<lambda>k. d ! ravel [B, 1] (map2 (mod) (unravel [B, M] k) [B, 1])) [0..<B * M]
      = map (\<lambda>k. d ! (k div M)) [0..<B * M]"
  proof (rule map_cong [OF refl])
    fix k assume "k \<in> set [0..<B * M]"
    then have "k < B * M" by simp
    then have "k div M < B"
      by (simp add: less_mult_imp_div_less)
    then show "d ! ravel [B, 1] (map2 (mod) (unravel [B, M] k) [B, 1]) = d ! (k div M)"
      by simp
  qed
  then show ?thesis by (simp add: repeat_def)
qed

lemma repeat_rows:
  "repeat (Tensor [K] d) [N, 1] = Inr (Tensor [N, K] (map (\<lambda>k. d ! (k mod K)) [0..<N * K]))"
  by (simp add: repeat_def mult.commute)

lemma repeat_mid:
  "repeat (Tensor [B, 1, M] d) [1, E, 1]
     = Inr (Tensor [B, E, M] (map (\<lambda>k. d ! ((k div (E * M)) * M + k mod M)) [0..<B * (E * M)]))"
proof -
  have "map (\<lambda>k. d ! ravel [B, 1, M] (map2 (mod) (unravel [B, E, M] k) [B, 1, M])) [0..<B * (E * M)]
      = map (\<lambda>k. d ! ((k div (E * M)) * M + k mod M)) [0..<B * (E * M)]"
  proof (rule map_cong [OF refl])
    fix k assume "k \<in> set [0..<B * (E * M)]"
    then have "k < B * (E * M)" by simp
    then have "k div (E * M) < B"
      by (simp add: less_mult_imp_div_less)
    moreover have "k mod (E * M) mod M = k mod M"
      by (simp add: mod_mod_cancel)
    ultimately show "d ! ravel [B, 1, M] (map2 (mod) (unravel [B, E, M] k) [B, 1, M])
        = d ! ((k div (E * M)) * M + k mod M)"
      by simp
  qed
  then show ?thesis by (simp add: repeat_def)
qed

lemma permute_2d:
  "permute (Tensor [R, N] d) [1, 0]
     = Inr (Tensor [N, R] (map (\<lambda>k. d ! (k div R + (k mod R) * N)) [0..<N * R]))"
  by (simp add: permute_def)

lemma broadcast_shapes_same: "broadcast_shapes s s = Inr s"
proof -
  have 1: "list_all (\<lambda>(x, y). x = y \<or> x = 1 \<or> y = 1) (zip s s)"
    by (induction s) simp_all
  have 2: "map2 (\<lambda>x y. if x = 1 then y else x) s s = s"
    by (induction s) simp_all
  show ?thesis using 1 2 by (simp add: broadcast_shapes_def)
qed

lemma binop_same:
  "wf a \<Longrightarrow> wf b \<Longrightarrow> shape a = shape b \<Longrightarrow>
   binop f a b = Inr (Tensor (shape a) (map2 f (data a) (data b)))"
  using expand_same [of a] expand_same [of b]
  by (simp add: binop_def broadcast_shapes_same)

lemma binop_inplace_same:
  "wf b \<Longrightarrow> shape a = shape b \<Longrightarrow>
   binop_inplace f a b = Inr (Tensor (shape a) (map2 f (data a) (data b)))"
  using expand_same [of b]
  by (simp add: binop_inplace_def broadcast_shapes_same)

lemma broadcast_shapes_1d:
  "broadcast_shapes [K] [R] =
     (if K = R \<or> K = 1 \<or> R = 1 then Inr [if K = 1 then R else K] else Inl RuntimeError)"
  by (simp add: broadcast_shapes_def)

lemma binop_inplace_1d_shape:
  "binop_inplace f (Tensor [K] d) (Tensor [R] e) = Inr t \<Longrightarrow> shape t = [K] \<and> (K = R \<or> R = 1)"
  by (auto simp: binop_inplace_def broadcast_shapes_1d split: if_splits)

lemma zeros_2d:
  "zeros [int N, L] =
     (if 0 \<le> L \<and> int64 (int N * L) \<and> int64 (int N) \<and> int64 L
      then Inr (Tensor [N, nat L] (replicate (N * nat L) 0)) else Inl RuntimeError)"
  by (auto simp: zeros_def nat_mult_distrib)

lemma zeros_4d:
  "zeros [int B, int E, H, W] =
     (if 0 \<le> H \<and> 0 \<le> W \<and> int64 (int B * (int E * (H * W))) \<and> int64 (int B) \<and> int64 (int E)
          \<and> int64 H \<and> int64 W
      then Inr (Tensor [B, E, nat H, nat W] (replicate (B * (E * (nat H * nat W))) 0))
      else Inl RuntimeError)"
  by (auto simp: zeros_def nat_mult_distrib)

lemma thn_if: "thn (if c then x else y) f = (if c then thn x f else thn y f)"
  by simp

lemma mul_arange:
  "mul_inplace (arange B) w =
     (if int64 w then Inr (Tensor [B] (map (\<lambda>i. wrap64 (int i * w)) [0..<B])) else Inl RuntimeError)"
  by (simp add: mul_inplace_def arange_def o_def)

lemma repeat_cols_map:
  "repeat (Tensor [B, 1] (map f [0..<B])) [1, M] = Inr (Tensor [B, M] (map (\<lambda>k. f (k div M)) [0..<B * M]))"
proof -
  have "map (\<lambda>k. map f [0..<B] ! (k div M)) [0..<B * M] = map (\<lambda>k. f (k div M)) [0..<B * M]"
  proof (rule map_cong [OF refl])
    fix k assume "k \<in> set [0..<B * M]"
    then have "k div M < B" by (simp add: less_mult_imp_div_less)
    then show "map f [0..<B] ! (k div M) = f (k div M)" by simp
  qed
  then show ?thesis by (simp only: repeat_cols)
qed

lemma repeat_rows_map:
  "repeat (Tensor [K] (map f [0..<K])) [N, 1] = Inr (Tensor [N, K] (map (\<lambda>k. f (k mod K)) [0..<N * K]))"
proof -
  have "map (\<lambda>k. map f [0..<K] ! (k mod K)) [0..<N * K] = map (\<lambda>k. f (k mod K)) [0..<N * K]"
  proof (rule map_cong [OF refl])
    fix k assume "k \<in> set [0..<N * K]"
    then have "0 < K" by (cases K) simp_all
    then show "map f [0..<K] ! (k mod K) = f (k mod K)" by simp
  qed
  then show ?thesis by (simp only: repeat_rows)
qed

lemma select_col_pairs:
  "j < 2 \<Longrightarrow> select_col (Tensor [K, 2] d) j = Inr (Tensor [K] (map (\<lambda>i. d ! (i * 2 + j)) [0..<K]))"
  by (simp add: select_col_2d)

lemma mul_long_map:
  "mul_inplace (Tensor s (map f ks)) w =
     (if int64 w then Inr (Tensor s (map (\<lambda>i. wrap64 (f i * w)) ks)) else Inl RuntimeError)"
  by (simp add: mul_inplace_def o_def)

lemma map2_map_upt: "map2 h (map f [0..<n]) (map g [0..<n]) = map (\<lambda>i. h (f i) (g i)) [0..<n]"
  by (induction n) simp_all

lemma binop_map:
  "binop h (Tensor s (map f [0..<prod_list s])) (Tensor s (map g [0..<prod_list s]))
     = Inr (Tensor s (map (\<lambda>i. h (f i) (g i)) [0..<prod_list s]))"
  by (simp add: binop_same wf_def numel_def map2_map_upt)

lemma binop_inplace_map:
  "binop_inplace h (Tensor s (map f [0..<prod_list s])) (Tensor s (map g [0..<prod_list s]))
     = Inr (Tensor s (map (\<lambda>i. h (f i) (g i)) [0..<prod_list s]))"
  by (simp add: binop_inplace_same wf_def numel_def map2_map_upt)

lemma binop_map_1d:
  "binop h (Tensor [K] (map f [0..<K])) (Tensor [K] (map g [0..<K]))
     = Inr (Tensor [K] (map (\<lambda>i. h (f i) (g i)) [0..<K]))"
  using binop_map [of h "[K]" f g] by simp

lemma binop_inplace_map_1d:
  "binop_inplace h (Tensor [K] (map f [0..<K])) (Tensor [K] (map g [0..<K]))
     = Inr (Tensor [K] (map (\<lambda>i. h (f i) (g i)) [0..<K]))"
  using binop_inplace_map [of h "[K]" f g] by simp

section \<open>Scatter as a fold over the entities\<close>

lemma fold_if_skip:
  "(\<And>k. k \<in> set ks \<Longrightarrow> \<not> P k) \<Longrightarrow> fold (\<lambda>k acc. if P k then g k acc else acc) ks z = z"
  by (induction ks arbitrary: z) simp_all

lemma block_address_eq:
  fixes x y L p q :: nat
  assumes "x < L" "y < L"
  shows "p * L + x = q * L + y \<longleftrightarrow> p = q \<and> x = y"
proof
  assume e: "p * L + x = q * L + y"
  have "(p * L + x) div L = p" "(q * L + y) div L = q" using assms by simp_all
  then have "p = q" using e by simp
  then show "p = q \<and> x = y" using e by simp
qed simp

lemma fold_rows:
  fixes f :: "nat \<Rightarrow> nat"
  assumes f: "\<And>j. j < K \<Longrightarrow> f j < L" and a: "a < L" and n: "n < N"
  shows "fold (\<lambda>k acc. if (k div K) * L + f (k mod K) = n * L + a then upd acc (val k) else acc)
           [0..<N * K] z
       = fold (\<lambda>j acc. if f j = a then upd acc (val (n * K + j)) else acc) [0..<K] z"
proof (cases "K = 0")
  case True
  then show ?thesis by simp
next
  case False
  then have K: "0 < K" by simp
  let ?P = "\<lambda>k. (k div K) * L + f (k mod K) = n * L + a"
  let ?F = "\<lambda>k acc. if ?P k then upd acc (val k) else acc"
  have P: "?P k \<longleftrightarrow> k div K = n \<and> f (k mod K) = a" for k
  proof (rule block_address_eq)
    show "f (k mod K) < L" using K by (intro f) simp
    show "a < L" by (rule a)
  qed
  have le: "n * K + K \<le> N * K"
  proof -
    have "Suc n * K \<le> N * K" using n by (intro mult_le_mono1) simp
    then show ?thesis by simp
  qed
  have split: "[0..<N * K] = [0..<n * K] @ [n * K..<n * K + K] @ [n * K + K..<N * K]"
  proof -
    obtain d where d: "N * K = (n * K + K) + d" using le by (auto simp: le_iff_add)
    have "[0..<(n * K + K) + d] = [0..<n * K + K] @ [n * K + K..<(n * K + K) + d]"
      by (rule upt_add_eq_append) simp
    moreover have "[0..<n * K + K] = [0..<n * K] @ [n * K..<n * K + K]"
      by (rule upt_add_eq_append) simp
    ultimately show ?thesis by (simp only: d append_assoc)
  qed
  have 1: "fold ?F [0..<n * K] z = z"
  proof (rule fold_if_skip)
    fix k assume "k \<in> set [0..<n * K]"
    then have "k div K < n" using K by (simp add: less_mult_imp_div_less)
    then show "\<not> ?P k" by (simp add: P)
  qed
  have 3: "fold ?F [n * K + K..<N * K] y = y" for y
  proof (rule fold_if_skip)
    fix k assume "k \<in> set [n * K + K..<N * K]"
    then have "Suc n * K \<le> k" by simp
    then have "Suc n \<le> k div K" using K by (simp add: less_eq_div_iff_mult_less_eq)
    then show "\<not> ?P k" by (simp add: P)
  qed
  have mid: "[n * K..<n * K + K] = map (\<lambda>j. n * K + j) [0..<K]"
    by (simp add: map_add_upt add.commute)
  have 2: "fold ?F [n * K..<n * K + K] z
         = fold (\<lambda>j acc. if f j = a then upd acc (val (n * K + j)) else acc) [0..<K] z"
    unfolding mid fold_map
  proof (rule fold_cong [OF refl refl])
    fix j assume "j \<in> set [0..<K]"
    then have j: "j < K" by simp
    then have "(n * K + j) div K = n" "(n * K + j) mod K = j" by simp_all
    then show "(?F \<circ> (\<lambda>j. n * K + j)) j = (\<lambda>acc. if f j = a then upd acc (val (n * K + j)) else acc)"
      by (simp add: P o_def)
  qed
  show ?thesis
    unfolding split fold_append o_def 1 by (simp only: 3 2)
qed

lemma unravel_2d: "unravel [N, K] k = [k div K, k mod K]"
  by simp

lemma scatter_step_2d:
  "scatter_step upd [N, L] 1 (Tensor [N, K] idx) (Tensor [N, R] sd) k out =
     out[(k div K) * L + nat (idx ! k) :=
           upd (out ! ((k div K) * L + nat (idx ! k))) (sd ! ((k div K) * R + k mod K))]"
  by (simp add: scatter_step_def Let_def)

lemma scatter_impl_2d:
  "scatter_impl upd (Tensor [N, L] zd) 1 (Tensor [N, K] idx) (Tensor [N, K] sd) =
     (if N * K = 0 then Inr (Tensor [N, L] zd)
      else if \<not> list_all (\<lambda>i. 0 \<le> i \<and> i < int L) idx then Inl RuntimeError
      else Inr (Tensor [N, L]
             (fold (\<lambda>k out. out[(k div K) * L + nat (idx ! k) :=
                      upd (out ! ((k div K) * L + nat (idx ! k))) (sd ! k)])
                [0..<N * K] zd)))"
proof -
  have "fold (scatter_step upd [N, L] 1 (Tensor [N, K] idx) (Tensor [N, K] sd)) [0..<N * K] zd
      = fold (\<lambda>k out. out[(k div K) * L + nat (idx ! k) :=
                      upd (out ! ((k div K) * L + nat (idx ! k))) (sd ! k)]) [0..<N * K] zd"
    by (rule fold_cong [OF refl refl]) (simp add: scatter_step_2d fun_eq_iff del: One_nat_def)
  then show ?thesis
    by (simp add: scatter_impl_def numel_def)
qed

lemma list_all_rows:
  "0 < N \<Longrightarrow> list_all P (map (\<lambda>k. adr (k mod K)) [0..<N * K]) \<longleftrightarrow> (\<forall>j<K. P (adr j))"
proof
  assume N: "0 < N" and all: "list_all P (map (\<lambda>k. adr (k mod K)) [0..<N * K])"
  show "\<forall>j<K. P (adr j)"
  proof (intro allI impI)
    fix j assume j: "j < K"
    have "K \<le> N * K" using N by simp
    then have "j < N * K" using j by (rule less_le_trans [rotated])
    then have "P (adr (j mod K))" using all by (simp add: list_all_iff)
    then show "P (adr j)" using j by simp
  qed
next
  assume "\<forall>j<K. P (adr j)"
  moreover have "k mod K < K" if "k < N * K" for k
    using that by (cases "K = 0") simp_all
  ultimately show "list_all P (map (\<lambda>k. adr (k mod K)) [0..<N * K])"
    by (simp add: list_all_iff)
qed

lemma scatter_2d_map:
  "scatter_impl upd (Tensor [N, L] zd) 1
     (Tensor [N, K] (map (\<lambda>k. adr (k mod K)) [0..<N * K])) (Tensor [N, K] sd) =
     (if N * K = 0 then Inr (Tensor [N, L] zd)
      else if \<not> (\<forall>j<K. 0 \<le> adr j \<and> adr j < int L) then Inl RuntimeError
      else Inr (Tensor [N, L]
             (fold (\<lambda>k out. out[(k div K) * L + nat (adr (k mod K)) :=
                      upd (out ! ((k div K) * L + nat (adr (k mod K)))) (sd ! k)])
                [0..<N * K] zd)))"
proof (cases "N * K = 0")
  case True
  then show ?thesis by (simp add: scatter_impl_def numel_def)
next
  case False
  then have N: "0 < N" by simp
  have "fold (\<lambda>k out. out[(k div K) * L + nat (map (\<lambda>k. adr (k mod K)) [0..<N * K] ! k) :=
                      upd (out ! ((k div K) * L + nat (map (\<lambda>k. adr (k mod K)) [0..<N * K] ! k)))
                        (sd ! k)]) [0..<N * K] zd
     = fold (\<lambda>k out. out[(k div K) * L + nat (adr (k mod K)) :=
                      upd (out ! ((k div K) * L + nat (adr (k mod K)))) (sd ! k)]) [0..<N * K] zd"
    by (rule fold_cong [OF refl refl]) simp
  then show ?thesis
    using False by (simp only: scatter_impl_2d list_all_rows [OF N] if_False)
qed

lemma scatter_2d_cell:
  assumes len: "length zd = N * L"
    and rng: "\<forall>j<K. 0 \<le> adr j \<and> adr j < int L"
    and n: "n < N" and a: "a < L"
  shows "fold (\<lambda>k out. out[(k div K) * L + nat (adr (k mod K)) :=
                      upd (out ! ((k div K) * L + nat (adr (k mod K)))) (sd ! k)])
                [0..<N * K] zd ! (n * L + a)
       = fold (\<lambda>j acc. if nat (adr j) = a then upd acc (sd ! (n * K + j)) else acc) [0..<K]
           (zd ! (n * L + a))"
proof -
  let ?adr = "\<lambda>k. (k div K) * L + nat (adr (k mod K))"
  have f: "nat (adr j) < L" if "j < K" for j
    using rng that a by (simp add: nat_less_iff)
  have in_range: "?adr k < length zd" if "k \<in> set [0..<N * K]" for k
  proof -
    have k: "k < N * K" using that by simp
    then have K: "0 < K" by (cases "K = 0") simp_all
    have d: "k div K < N" using k by (simp add: less_mult_imp_div_less)
    have "nat (adr (k mod K)) < L" using K by (intro f) simp
    then have "?adr k < (k div K) * L + L" by simp
    also have "\<dots> = Suc (k div K) * L" by simp
    also have "\<dots> \<le> N * L" using d by (intro mult_le_mono1) simp
    finally show ?thesis by (simp add: len)
  qed
  have a': "n * L + a < length zd"
  proof -
    have "n * L + a < Suc n * L" using a by simp
    also have "\<dots> \<le> N * L" using n by (intro mult_le_mono1) simp
    finally show ?thesis by (simp add: len)
  qed
  have "fold (\<lambda>k out. out[?adr k := upd (out ! ?adr k) (sd ! k)]) [0..<N * K] zd ! (n * L + a)
      = fold (\<lambda>k acc. if ?adr k = n * L + a then upd acc (sd ! k) else acc) [0..<N * K]
          (zd ! (n * L + a))"
    using in_range a' by (rule fold_update_nth)
  also have "\<dots> = fold (\<lambda>j acc. if nat (adr j) = a then upd acc (sd ! (n * K + j)) else acc) [0..<K]
           (zd ! (n * L + a))"
    using f a n by (rule fold_rows)
  finally show ?thesis .
qed

lemma fold_rows_gen:
  fixes f :: "nat \<Rightarrow> nat"
  assumes f: "\<And>k. k < N * K \<Longrightarrow> f k < L" and a: "a < L" and n: "n < N"
  shows "fold (\<lambda>k acc. if (k div K) * L + f k = n * L + a then upd acc (val k) else acc)
           [0..<N * K] z
       = fold (\<lambda>j acc. if f (n * K + j) = a then upd acc (val (n * K + j)) else acc) [0..<K] z"
proof (cases "K = 0")
  case True
  then show ?thesis by simp
next
  case False
  then have K: "0 < K" by simp
  let ?P = "\<lambda>k. (k div K) * L + f k = n * L + a"
  let ?F = "\<lambda>k acc. if ?P k then upd acc (val k) else acc"
  have P: "?P k \<longleftrightarrow> k div K = n \<and> f k = a" if "k < N * K" for k
  proof (rule block_address_eq)
    show "f k < L" using that by (rule f)
    show "a < L" by (rule a)
  qed
  have le: "n * K + K \<le> N * K"
  proof -
    have "Suc n * K \<le> N * K" using n by (intro mult_le_mono1) simp
    then show ?thesis by simp
  qed
  have split: "[0..<N * K] = [0..<n * K] @ [n * K..<n * K + K] @ [n * K + K..<N * K]"
  proof -
    obtain d where d: "N * K = (n * K + K) + d" using le by (auto simp: le_iff_add)
    have "[0..<(n * K + K) + d] = [0..<n * K + K] @ [n * K + K..<(n * K + K) + d]"
      by (rule upt_add_eq_append) simp
    moreover have "[0..<n * K + K] = [0..<n * K] @ [n * K..<n * K + K]"
      by (rule upt_add_eq_append) simp
    ultimately show ?thesis by (simp only: d append_assoc)
  qed
  have 1: "fold ?F [0..<n * K] z = z"
  proof (rule fold_if_skip)
    fix k assume k: "k \<in> set [0..<n * K]"
    then have "k div K < n" using K by (simp add: less_mult_imp_div_less)
    moreover have "k < N * K" using k le by simp
    ultimately show "\<not> ?P k" by (simp add: P)
  qed
  have 3: "fold ?F [n * K + K..<N * K] y = y" for y
  proof (rule fold_if_skip)
    fix k assume k: "k \<in> set [n * K + K..<N * K]"
    then have "Suc n * K \<le> k" by simp
    then have "Suc n \<le> k div K" using K by (simp add: less_eq_div_iff_mult_less_eq)
    moreover have "k < N * K" using k by simp
    ultimately show "\<not> ?P k" by (simp add: P)
  qed
  have mid: "[n * K..<n * K + K] = map (\<lambda>j. n * K + j) [0..<K]"
    by (simp add: map_add_upt add.commute)
  have 2: "fold ?F [n * K..<n * K + K] z
         = fold (\<lambda>j acc. if f (n * K + j) = a then upd acc (val (n * K + j)) else acc) [0..<K] z"
    unfolding mid fold_map
  proof (rule fold_cong [OF refl refl])
    fix j assume "j \<in> set [0..<K]"
    then have j: "j < K" by simp
    then have d: "(n * K + j) div K = n" by simp
    have "n * K + j < N * K" using j le by simp
    then show "(?F \<circ> (\<lambda>j. n * K + j)) j
        = (\<lambda>acc. if f (n * K + j) = a then upd acc (val (n * K + j)) else acc)"
      using d by (simp add: P o_def)
  qed
  show ?thesis
    unfolding split fold_append o_def 1 by (simp only: 3 2)
qed

lemma scatter_rows_cell:
  assumes len: "length zd = N * L"
    and rng: "\<forall>k<N * K. 0 \<le> idx k \<and> idx k < int L"
    and n: "n < N" and a: "a < L"
  shows "fold (\<lambda>k out. out[(k div K) * L + nat (idx k) :=
                      upd (out ! ((k div K) * L + nat (idx k))) (sd k)])
                [0..<N * K] zd ! (n * L + a)
       = fold (\<lambda>j acc. if idx (n * K + j) = int a then upd acc (sd (n * K + j)) else acc) [0..<K]
           (zd ! (n * L + a))"
proof -
  let ?adr = "\<lambda>k. (k div K) * L + nat (idx k)"
  have f: "nat (idx k) < L" if "k < N * K" for k
    using rng that a by (simp add: nat_less_iff)
  have in_range: "?adr k < length zd" if "k \<in> set [0..<N * K]" for k
  proof -
    have k: "k < N * K" using that by simp
    have d: "k div K < N" using k by (simp add: less_mult_imp_div_less)
    have "?adr k < (k div K) * L + L" using f [OF k] by simp
    also have "\<dots> = Suc (k div K) * L" by simp
    also have "\<dots> \<le> N * L" using d by (intro mult_le_mono1) simp
    finally show ?thesis by (simp add: len)
  qed
  have a': "n * L + a < length zd"
  proof -
    have "n * L + a < Suc n * L" using a by simp
    also have "\<dots> \<le> N * L" using n by (intro mult_le_mono1) simp
    finally show ?thesis by (simp add: len)
  qed
  have le: "n * K + K \<le> N * K"
  proof -
    have "Suc n * K \<le> N * K" using n by (intro mult_le_mono1) simp
    then show ?thesis by simp
  qed
  have "fold (\<lambda>k out. out[?adr k := upd (out ! ?adr k) (sd k)]) [0..<N * K] zd ! (n * L + a)
      = fold (\<lambda>k acc. if ?adr k = n * L + a then upd acc (sd k) else acc) [0..<N * K]
          (zd ! (n * L + a))"
    using in_range a' by (rule fold_update_nth)
  also have "\<dots> = fold (\<lambda>j acc. if nat (idx (n * K + j)) = a then upd acc (sd (n * K + j)) else acc)
           [0..<K] (zd ! (n * L + a))"
    using f a n by (rule fold_rows_gen)
  also have "\<dots> = fold (\<lambda>j acc. if idx (n * K + j) = int a then upd acc (sd (n * K + j)) else acc)
           [0..<K] (zd ! (n * L + a))"
  proof (rule fold_cong [OF refl refl])
    fix j assume "j \<in> set [0..<K]"
    then have "n * K + j < N * K" using le by simp
    then have "0 \<le> idx (n * K + j)" using rng by simp
    then have e: "nat (idx (n * K + j)) = a \<longleftrightarrow> idx (n * K + j) = int a" by auto
    show "(\<lambda>acc. if nat (idx (n * K + j)) = a then upd acc (sd (n * K + j)) else acc)
        = (\<lambda>acc. if idx (n * K + j) = int a then upd acc (sd (n * K + j)) else acc)"
      by (simp only: e)
  qed
  finally show ?thesis .
qed

section \<open>The combined-coordinate entry point in closed form\<close>

lemma map_sum_if:
  "map_sum f g (if c then x else y) = (if c then map_sum f g x else map_sum f g y)"
  by simp

lemma view_location: "view (Tensor [B, M, 2] d) [- 1, 2] = Inr (Tensor [B * M, 2] d)"
  using view_rows [of "Tensor [B, M, 2] d" 2] by (simp add: numel_def)

lemma view_features:
  "view (Tensor [B, M, N] d) [- 1, int N] =
     (if 0 < N then Inr (Tensor [B * M, N] d) else Inl RuntimeError)"
  using view_rows [of "Tensor [B, M, N] d" N] by (simp add: numel_def)

lemma forward_closed:
  "forward self (FloatT (Tensor [B, M, N] xd)) (H, W) (LongT (Tensor [B, M, 2] ld)) =
     (if int64 (H * W) \<and> int64 W \<and> 0 < N \<and> 0 \<le> int B * H * W
         \<and> int64 (int N * (int B * H * W)) \<and> int64 (int N) \<and> int64 (int B * H * W)
      then
        thn (if scatter_type self = ''cover''
             then scatter_inplace
                    (Tensor [N, nat (int B * H * W)] (replicate (N * nat (int B * H * W)) 0)) 1
                    (LongT (Tensor [N, B * M]
                       (map (\<lambda>k. forward_address H W (k mod (B * M) div M)
                                    (ld ! (k mod (B * M) * 2)) (ld ! (k mod (B * M) * 2 + 1)))
                          [0..<N * (B * M)])))
                    (FloatT (Tensor [N, B * M]
                       (map (\<lambda>k. xd ! (k div (B * M) + k mod (B * M) * N)) [0..<N * (B * M)])))
             else if scatter_type self = ''add''
             then scatter_add_inplace
                    (Tensor [N, nat (int B * H * W)] (replicate (N * nat (int B * H * W)) 0)) 1
                    (LongT (Tensor [N, B * M]
                       (map (\<lambda>k. forward_address H W (k mod (B * M) div M)
                                    (ld ! (k mod (B * M) * 2)) (ld ! (k mod (B * M) * 2 + 1)))
                          [0..<N * (B * M)])))
                    (FloatT (Tensor [N, B * M]
                       (map (\<lambda>k. xd ! (k div (B * M) + k mod (B * M) * N)) [0..<N * (B * M)])))
             else Inr (Tensor [N, nat (int B * H * W)] (replicate (N * nat (int B * H * W)) 0)))
          (\<lambda>output. thn (reshape output [int N, int B, H, W])
             (\<lambda>output. thn (permute output [1, 0, 2, 3]) Inr))
      else Inl RuntimeError)"
proof -
  note rules = forward_def view_location view_features mul_arange unsqueeze_1d repeat_cols_map
      view_flat numel_def select_col_pairs mul_long_map binop_map_1d binop_inplace_map_1d
      repeat_rows_map permute_2d zeros_2d thn_if map_sum_if contiguous_def forward_address_def
  show ?thesis
  proof (cases "int64 (H * W) \<and> int64 W \<and> 0 < N \<and> 0 \<le> int B * H * W
         \<and> int64 (int N * (int B * H * W)) \<and> int64 (int N) \<and> int64 (int B * H * W)")
    case True
    then show ?thesis
      by (simp add: rules del: One_nat_def split del: if_split cong: if_cong)
  next
    case False
    have "forward self (FloatT (Tensor [B, M, N] xd)) (H, W) (LongT (Tensor [B, M, 2] ld))
        = Inl RuntimeError"
      using False
      by (simp add: rules del: One_nat_def split del: if_split cong: if_cong) auto
    then show ?thesis using False by (simp only: if_False)
  qed
qed

lemma get_permute:
  assumes "permute t p = Inr t'" "list_all2 (<) mi (shape t')"
  shows "get t' mi = data t ! offset (map (\<lambda>i. strides (shape t) ! i) p) mi"
proof -
  let ?s = "map (\<lambda>i. shape t ! i) p"
  let ?st = "map (\<lambda>i. strides (shape t) ! i) p"
  have t': "t' = Tensor ?s (map (\<lambda>k. data t ! offset ?st (unravel ?s k)) [0..<prod_list ?s])"
    using assms(1) by (simp add: permute_def Let_def split: if_splits)
  have v: "list_all2 (<) mi ?s" using assms(2) by (simp add: t')
  have lt: "ravel ?s mi < prod_list ?s" using v by (rule ravel_lt)
  have "get t' mi = data t ! offset ?st (unravel ?s (ravel ?s mi))"
    using lt by (simp add: t' get_def)
  then show ?thesis using unravel_ravel [OF v] by simp
qed

lemma permute_4d:
  "permute (Tensor [N, B, H, W] d) [1, 0, 2, 3] = Inr t' \<Longrightarrow>
   shape t' = [B, N, H, W] \<and> length (data t') = B * (N * (H * W))"
  by (auto simp: permute_def Let_def split: if_splits)

lemma get_permute_4d:
  assumes "permute (Tensor [N, B, H, W] d) [1, 0, 2, 3] = Inr t'"
    "b < B" "n < N" "r < H" "c < W"
  shows "get t' [b, n, r, c] = d ! (n * (B * (H * W)) + (b * (H * W) + r * W + c))"
proof -
  have "list_all2 (<) [b, n, r, c] (shape t')"
    using permute_4d [OF assms(1)] assms(2-) by simp
  from get_permute [OF assms(1) this] show ?thesis
    by (simp add: add_ac)
qed

lemma permute_4d_ok:
  "\<exists>t'. permute (Tensor [N, B, H, W] d) [1, 0, 2, 3] = Inr t'"
  by (simp add: permute_def Let_def upt_rec_numeral)

lemma reshape_4d:
  assumes "0 \<le> int B * H * W"
  shows "reshape (Tensor [N, nat (int B * H * W)] d) [int N, int B, H, W] =
     (if 0 \<le> H \<and> 0 \<le> W then Inr (Tensor [N, B, nat H, nat W] d) else Inl RuntimeError)"
proof (cases "0 \<le> H \<and> 0 \<le> W")
  case True
  then have "list_all (\<lambda>d. 0 \<le> d) [int N, int B, H, W]" by simp
  from view_nonneg [OF this, of "Tensor [N, nat (int B * H * W)] d"] True show ?thesis
    by (simp add: reshape_def numel_def nat_mult_distrib)
next
  case False
  consider "H < - 1 \<or> W < - 1" | "H = - 1" "W = - 1" | "H = - 1" "0 \<le> W" | "0 \<le> H" "W = - 1"
    using False by linarith
  then have "infer_size [int N, int B, H, W] (N * nat (int B * H * W)) = Inl RuntimeError"
  proof cases
    case 1
    then show ?thesis by (auto simp: infer_size_def)
  next
    case 2
    then show ?thesis by (simp add: infer_size_def)
  next
    case 3
    have "int B * H * W = - (int B * W)" using 3 by simp
    moreover have "0 \<le> int B * W" using 3 by simp
    ultimately have "int B * W = 0" using assms by linarith
    then show ?thesis using 3 by (auto simp: infer_size_def)
  next
    case 4
    have "int B * H * W = - (int B * H)" using 4 by simp
    moreover have "0 \<le> int B * H" using 4 by simp
    ultimately have "int B * H = 0" using assms by linarith
    then show ?thesis using 4 by (auto simp: infer_size_def)
  qed
  then show ?thesis using False by (simp add: reshape_def view_def numel_def)
qed

lemma fold_keep: "fold (\<lambda>j acc. if P j then acc else acc) ks z = z"
  by (induction ks) simp_all

lemma nat_cells: "0 \<le> H \<Longrightarrow> 0 \<le> W \<Longrightarrow> nat (int B * H * W) = B * (nat H * nat W)"
  by (simp add: nat_mult_distrib mult.assoc)

lemma cell_lt:
  fixes b r c B H W :: nat
  assumes "b < B" "r < H" "c < W"
  shows "b * (H * W) + r * W + c < B * (H * W)"
proof -
  have "r * W + c < Suc r * W" using assms(3) by simp
  also have "\<dots> \<le> H * W" using assms(2) by (intro mult_le_mono1) simp
  finally have 1: "r * W + c < H * W" .
  then have "b * (H * W) + r * W + c < Suc b * (H * W)" by simp
  also have "\<dots> \<le> B * (H * W)" using assms(1) by (intro mult_le_mono1) simp
  finally show ?thesis .
qed

lemma write_policy_cover: "write_policy ''cover'' = (\<lambda>old v. v)"
  by (simp add: write_policy_def fun_eq_iff)

lemma write_policy_add: "write_policy ''add'' = (\<lambda>old v. old + v)"
  by (simp add: write_policy_def fun_eq_iff)

lemma forward_scattered:
  fixes adr :: "nat \<Rightarrow> int"
  assumes S: "(if st = ''cover''
             then scatter_inplace (Tensor [N, L] (replicate (N * L) 0)) 1
                    (LongT (Tensor [N, K] (map (\<lambda>k. adr (k mod K)) [0..<N * K])))
                    (FloatT (Tensor [N, K] (map (\<lambda>k. xd ! (k div K + k mod K * N)) [0..<N * K])))
             else if st = ''add''
             then scatter_add_inplace (Tensor [N, L] (replicate (N * L) 0)) 1
                    (LongT (Tensor [N, K] (map (\<lambda>k. adr (k mod K)) [0..<N * K])))
                    (FloatT (Tensor [N, K] (map (\<lambda>k. xd ! (k div K + k mod K * N)) [0..<N * K])))
             else Inr (Tensor [N, L] (replicate (N * L) 0))) = Inr o1"
    and N: "0 < N"
  shows "\<exists>D. o1 = Tensor [N, L] D \<and> length D = N * L
           \<and> (st \<in> {''cover'', ''add''} \<longrightarrow> (\<forall>j<K. 0 \<le> adr j \<and> adr j < int L))
           \<and> (\<forall>n<N. \<forall>a<L. D ! (n * L + a)
                 = fold (\<lambda>j acc. if adr j = int a then write_policy st acc (xd ! (j * N + n)) else acc)
                     [0..<K] 0)"
proof -
  let ?Z = "replicate (N * L) (0::real)"
  let ?sd = "map (\<lambda>k. xd ! (k div K + k mod K * N)) [0..<N * K]"
  have zero: "?Z ! (n * L + a) = 0" if "n < N" "a < L" for n a
  proof -
    have "n * L + a < Suc n * L" using that(2) by simp
    also have "\<dots> \<le> N * L" using that(1) by (intro mult_le_mono1) simp
    finally show ?thesis by simp
  qed
  have src: "?sd ! (n * K + j) = xd ! (j * N + n)" if "n < N" "j < K" for n j
  proof -
    have "n * K + j < Suc n * K" using that(2) by simp
    also have "\<dots> \<le> N * K" using that(1) by (intro mult_le_mono1) simp
    finally have "n * K + j < N * K" .
    then show ?thesis using that(2) by (simp add: add.commute)
  qed
  have general: "\<exists>D. o1 = Tensor [N, L] D \<and> length D = N * L
           \<and> (\<forall>j<K. 0 \<le> adr j \<and> adr j < int L)
           \<and> (\<forall>n<N. \<forall>a<L. D ! (n * L + a)
                 = fold (\<lambda>j acc. if adr j = int a then upd acc (xd ! (j * N + n)) else acc)
                     [0..<K] 0)"
    if imp: "scatter_impl upd (Tensor [N, L] ?Z) 1
              (Tensor [N, K] (map (\<lambda>k. adr (k mod K)) [0..<N * K])) (Tensor [N, K] ?sd) = Inr o1"
    for upd
  proof (cases "N * K = 0")
    case True
    then have K: "K = 0" using N by simp
    have "o1 = Tensor [N, L] ?Z" using imp [unfolded scatter_2d_map] True by simp
    then show ?thesis using K zero by simp
  next
    case False
    have rng: "\<forall>j<K. 0 \<le> adr j \<and> adr j < int L"
      using imp [unfolded scatter_2d_map] False by (simp split: if_splits)
    let ?D = "fold (\<lambda>k out. out[(k div K) * L + nat (adr (k mod K)) :=
                      upd (out ! ((k div K) * L + nat (adr (k mod K)))) (?sd ! k)])
                [0..<N * K] ?Z"
    have o1: "o1 = Tensor [N, L] ?D"
      using imp [unfolded scatter_2d_map] False rng by simp
    have len: "length ?D = N * L" by (simp add: fold_update_length)
    have cell: "?D ! (n * L + a)
         = fold (\<lambda>j acc. if adr j = int a then upd acc (xd ! (j * N + n)) else acc) [0..<K] 0"
      if n: "n < N" and a: "a < L" for n a
    proof -
      have "?D ! (n * L + a)
          = fold (\<lambda>j acc. if nat (adr j) = a then upd acc (?sd ! (n * K + j)) else acc) [0..<K]
              (?Z ! (n * L + a))"
        by (rule scatter_2d_cell [OF _ rng n a]) simp
      also have "\<dots> = fold (\<lambda>j acc. if adr j = int a then upd acc (xd ! (j * N + n)) else acc)
              [0..<K] (?Z ! (n * L + a))"
      proof (rule fold_cong [OF refl refl])
        fix j assume "j \<in> set [0..<K]"
        then have j: "j < K" by simp
        then have "0 \<le> adr j" using rng by simp
        then have e: "nat (adr j) = a \<longleftrightarrow> adr j = int a" by auto
        show "(\<lambda>acc. if nat (adr j) = a then upd acc (?sd ! (n * K + j)) else acc)
                 = (\<lambda>acc. if adr j = int a then upd acc (xd ! (j * N + n)) else acc)"
          by (simp only: e src [OF n j])
      qed
      finally show ?thesis using zero [OF n a] by simp
    qed
    show ?thesis using o1 len rng cell by blast
  qed
  consider "st = ''cover''" | "st \<noteq> ''cover''" "st = ''add''" | "st \<noteq> ''cover''" "st \<noteq> ''add''"
    by blast
  then show ?thesis
  proof cases
    case 1
    then have "scatter_impl (write_policy st) (Tensor [N, L] ?Z) 1
              (Tensor [N, K] (map (\<lambda>k. adr (k mod K)) [0..<N * K])) (Tensor [N, K] ?sd) = Inr o1"
      using S by (simp add: scatter_inplace_def write_policy_cover)
    from general [OF this] show ?thesis
      by blast
  next
    case 2
    then have "scatter_impl (write_policy st) (Tensor [N, L] ?Z) 1
              (Tensor [N, K] (map (\<lambda>k. adr (k mod K)) [0..<N * K])) (Tensor [N, K] ?sd) = Inr o1"
      using S by (simp add: scatter_add_inplace_def write_policy_add)
    from general [OF this] show ?thesis
      by blast
  next
    case 3
    then have o1: "o1 = Tensor [N, L] ?Z" using S by simp
    have wp: "write_policy st acc v = acc" for acc v
      using 3 by (simp add: write_policy_def)
    have fd: "fold (\<lambda>j acc. if P j then write_policy st acc (f j) else acc) ks z = z"
      for P f ks and z :: real
      by (induction ks) (simp_all add: wp)
    show ?thesis using zero o1 3 by (simp add: fd)
  qed
qed

lemma forward_result:
  assumes fw: "forward self (FloatT (Tensor [B, M, N] xd)) (H, W) (LongT (Tensor [B, M, 2] ld))
             = Inr out"
  shows "0 \<le> H \<and> 0 \<le> W \<and> 0 < N \<and> int64 W \<and> int64 (H * W) \<and> int64 (int B * H * W)"
    and "shape out = [B, N, nat H, nat W]"
    and "length (data out) = B * (N * (nat H * nat W))"
    and "scatter_type self \<in> {''cover'', ''add''} \<Longrightarrow> j < B * M \<Longrightarrow>
           0 \<le> location_address H W M ld j
           \<and> location_address H W M ld j < int (B * (nat H * nat W))"
    and "b < B \<Longrightarrow> n < N \<Longrightarrow> r < nat H \<Longrightarrow> c < nat W \<Longrightarrow>
           get out [b, n, r, c]
           = fold (\<lambda>j acc. if location_address H W M ld j = int (b * (nat H * nat W) + r * nat W + c)
                            then write_policy (scatter_type self) acc (xd ! (j * N + n)) else acc)
               [0..<B * M] 0"
proof -
  let ?L = "nat (int B * H * W)"
  let ?C = "int64 (H * W) \<and> int64 W \<and> 0 < N \<and> 0 \<le> int B * H * W
         \<and> int64 (int N * (int B * H * W)) \<and> int64 (int N) \<and> int64 (int B * H * W)"
  have C: ?C
  proof (rule ccontr)
    assume "\<not> ?C"
    then have "forward self (FloatT (Tensor [B, M, N] xd)) (H, W) (LongT (Tensor [B, M, 2] ld))
        = Inl RuntimeError"
      by (simp only: forward_closed if_False)
    then show False using fw by simp
  qed
  have fw': "thn (if scatter_type self = ''cover''
             then scatter_inplace (Tensor [N, ?L] (replicate (N * ?L) 0)) 1
                    (LongT (Tensor [N, B * M]
                       (map (\<lambda>k. location_address H W M ld (k mod (B * M))) [0..<N * (B * M)])))
                    (FloatT (Tensor [N, B * M]
                       (map (\<lambda>k. xd ! (k div (B * M) + k mod (B * M) * N)) [0..<N * (B * M)])))
             else if scatter_type self = ''add''
             then scatter_add_inplace (Tensor [N, ?L] (replicate (N * ?L) 0)) 1
                    (LongT (Tensor [N, B * M]
                       (map (\<lambda>k. location_address H W M ld (k mod (B * M))) [0..<N * (B * M)])))
                    (FloatT (Tensor [N, B * M]
                       (map (\<lambda>k. xd ! (k div (B * M) + k mod (B * M) * N)) [0..<N * (B * M)])))
             else Inr (Tensor [N, ?L] (replicate (N * ?L) 0)))
          (\<lambda>output. thn (reshape output [int N, int B, H, W])
             (\<lambda>output. thn (permute output [1, 0, 2, 3]) Inr)) = Inr out"
    using fw [unfolded forward_closed if_P [OF C]] unfolding location_address_def .
  then obtain o1 o2 where
    S: "(if scatter_type self = ''cover''
             then scatter_inplace (Tensor [N, ?L] (replicate (N * ?L) 0)) 1
                    (LongT (Tensor [N, B * M]
                       (map (\<lambda>k. location_address H W M ld (k mod (B * M))) [0..<N * (B * M)])))
                    (FloatT (Tensor [N, B * M]
                       (map (\<lambda>k. xd ! (k div (B * M) + k mod (B * M) * N)) [0..<N * (B * M)])))
             else if scatter_type self = ''add''
             then scatter_add_inplace (Tensor [N, ?L] (replicate (N * ?L) 0)) 1
                    (LongT (Tensor [N, B * M]
                       (map (\<lambda>k. location_address H W M ld (k mod (B * M))) [0..<N * (B * M)])))
                    (FloatT (Tensor [N, B * M]
                       (map (\<lambda>k. xd ! (k div (B * M) + k mod (B * M) * N)) [0..<N * (B * M)])))
             else Inr (Tensor [N, ?L] (replicate (N * ?L) 0))) = Inr o1"
    and R: "reshape o1 [int N, int B, H, W] = Inr o2"
    and P: "permute o2 [1, 0, 2, 3] = Inr out"
    unfolding thn_eq_Inr by blast
  have N: "0 < N" using C by simp
  from forward_scattered [OF S N] obtain D where
    o1: "o1 = Tensor [N, ?L] D" and len: "length D = N * ?L"
    and rng: "scatter_type self \<in> {''cover'', ''add''} \<longrightarrow>
                (\<forall>j<B * M. 0 \<le> location_address H W M ld j \<and> location_address H W M ld j < int ?L)"
    and cell: "\<forall>n<N. \<forall>a<?L. D ! (n * ?L + a)
                 = fold (\<lambda>j acc. if location_address H W M ld j = int a
                            then write_policy (scatter_type self) acc (xd ! (j * N + n)) else acc)
                     [0..<B * M] 0"
    by blast
  have nn: "0 \<le> int B * H * W" using C by simp
  have HW: "0 \<le> H \<and> 0 \<le> W" and o2: "o2 = Tensor [N, B, nat H, nat W] D"
    using R unfolding o1 reshape_4d [OF nn] by (simp_all split: if_splits)
  have L: "?L = B * (nat H * nat W)" using HW by (simp add: nat_cells)
  show "0 \<le> H \<and> 0 \<le> W \<and> 0 < N \<and> int64 W \<and> int64 (H * W) \<and> int64 (int B * H * W)"
    using HW C by simp
  show "shape out = [B, N, nat H, nat W]"
    using permute_4d [OF P [unfolded o2]] by simp
  show "length (data out) = B * (N * (nat H * nat W))"
    using permute_4d [OF P [unfolded o2]] by simp
  show "0 \<le> location_address H W M ld j \<and> location_address H W M ld j < int (B * (nat H * nat W))"
    if "scatter_type self \<in> {''cover'', ''add''}" "j < B * M"
    using rng that unfolding L by blast
  show "get out [b, n, r, c]
           = fold (\<lambda>j acc. if location_address H W M ld j = int (b * (nat H * nat W) + r * nat W + c)
                            then write_policy (scatter_type self) acc (xd ! (j * N + n)) else acc)
               [0..<B * M] 0"
    if b: "b < B" and n: "n < N" and r: "r < nat H" and c: "c < nat W"
  proof -
    have a: "b * (nat H * nat W) + r * nat W + c < ?L"
      unfolding L using b r c by (rule cell_lt)
    have "get out [b, n, r, c]
        = D ! (n * (B * (nat H * nat W)) + (b * (nat H * nat W) + r * nat W + c))"
      using P [unfolded o2] b n r c by (rule get_permute_4d)
    also have "\<dots> = D ! (n * ?L + (b * (nat H * nat W) + r * nat W + c))"
      by (simp only: L)
    also have "\<dots> = fold (\<lambda>j acc. if location_address H W M ld j
                                   = int (b * (nat H * nat W) + r * nat W + c)
                            then write_policy (scatter_type self) acc (xd ! (j * N + n)) else acc)
               [0..<B * M] 0"
      using cell n a by blast
    finally show ?thesis .
  qed
qed

section \<open>The separate-axis entry point in closed form\<close>

lemma map2_nth: "length xs = n \<Longrightarrow> length ys = n \<Longrightarrow> map2 f xs ys = map (\<lambda>k. f (xs ! k) (ys ! k)) [0..<n]"
  by (auto intro!: nth_equalityI)

lemma binop_same_nth:
  "length ad = prod_list s \<Longrightarrow> length bd = prod_list s \<Longrightarrow>
   binop f (Tensor s ad) (Tensor s bd) = Inr (Tensor s (map (\<lambda>k. f (ad ! k) (bd ! k)) [0..<prod_list s]))"
  by (simp add: binop_same wf_def numel_def map2_nth)

lemma xy_indices:
  assumes "d_shape cx = s" "d_shape cy = s" "d_wf cx" "d_wf cy"
  shows "d_mul cx W = (if int64 W then Inr (projr (d_mul cx W)) else Inl RuntimeError)"
    and "int64 W \<Longrightarrow> \<exists>t. d_add (projr (d_mul cx W)) cy = Inr t
           \<and> long t = Tensor s (map (xy_index W cx cy) [0..<prod_list s])"
proof -
  show "d_mul cx W = (if int64 W then Inr (projr (d_mul cx W)) else Inl RuntimeError)"
    by (cases cx) (simp_all add: mul_inplace_def)
  show "\<exists>t. d_add (projr (d_mul cx W)) cy = Inr t
           \<and> long t = Tensor s (map (xy_index W cx cy) [0..<prod_list s])" if W: "int64 W"
  proof (cases cx)
    case cxL: (LongT a)
    obtain ad where a: "a = Tensor s ad" and la: "length ad = prod_list s"
      using assms cxL by (cases a) (simp add: wf_def numel_def)
    show ?thesis
    proof (cases cy)
      case (LongT b)
      obtain bd where b: "b = Tensor s bd" and lb: "length bd = prod_list s"
        using assms LongT by (cases b) (simp add: wf_def numel_def)
      show ?thesis using W la lb
        by (simp add: cxL LongT a b mul_inplace_def binop_same_nth xy_address_def)
    next
      case (FloatT b)
      obtain bd where b: "b = Tensor s bd" and lb: "length bd = prod_list s"
        using assms FloatT by (cases b) (simp add: wf_def numel_def)
      show ?thesis using W la lb
        by (simp add: cxL FloatT a b mul_inplace_def binop_same_nth o_def)
    qed
  next
    case cxF: (FloatT a)
    obtain ad where a: "a = Tensor s ad" and la: "length ad = prod_list s"
      using assms cxF by (cases a) (simp add: wf_def numel_def)
    show ?thesis
    proof (cases cy)
      case (LongT b)
      obtain bd where b: "b = Tensor s bd" and lb: "length bd = prod_list s"
        using assms LongT by (cases b) (simp add: wf_def numel_def)
      show ?thesis using W la lb
        by (simp add: cxF LongT a b binop_same_nth o_def)
    next
      case (FloatT b)
      obtain bd where b: "b = Tensor s bd" and lb: "length bd = prod_list s"
        using assms FloatT by (cases b) (simp add: wf_def numel_def)
      show ?thesis using W la lb
        by (simp add: cxF FloatT a b binop_same_nth o_def)
    qed
  qed
qed

lemma permute_3d:
  "permute (Tensor [B, M, E] d) [0, 2, 1]
     = Inr (Tensor [B, E, M]
         (map (\<lambda>k. d ! (k div (E * M) * (M * E) + (k mod (E * M) div M + k mod M * E)))
            [0..<B * (E * M)]))"
  by (simp add: permute_def upt_rec_numeral mod_mod_cancel)

lemma thn_return [simp]: "thn m Inr = m"
  by (cases m) simp_all

lemma row_col_lt:
  fixes k B E M :: nat
  assumes "k < B * (E * M)"
  shows "k div (E * M) * M + k mod M < B * M"
proof -
  have M: "0 < M" using assms by (cases "M = 0") simp_all
  have "k div (E * M) < B" using assms by (simp add: less_mult_imp_div_less)
  moreover have "k mod M < M" using M by simp
  ultimately have "k div (E * M) * M + k mod M < Suc (k div (E * M)) * M" by simp
  also have "\<dots> \<le> B * M" using \<open>k div (E * M) < B\<close> by (intro mult_le_mono1) simp
  finally show ?thesis .
qed

lemma repeat_mid_map:
  "repeat (Tensor [B, 1, M] (map f [0..<B * M])) [1, E, 1]
     = Inr (Tensor [B, E, M] (map (\<lambda>k. f (k div (E * M) * M + k mod M)) [0..<B * (E * M)]))"
proof -
  have "map (\<lambda>k. map f [0..<B * M] ! (k div (E * M) * M + k mod M)) [0..<B * (E * M)]
      = map (\<lambda>k. f (k div (E * M) * M + k mod M)) [0..<B * (E * M)]"
  proof (rule map_cong [OF refl])
    fix k assume "k \<in> set [0..<B * (E * M)]"
    then have "k div (E * M) * M + k mod M < B * M" by (simp add: row_col_lt)
    then show "map f [0..<B * M] ! (k div (E * M) * M + k mod M) = f (k div (E * M) * M + k mod M)"
      by simp
  qed
  then show ?thesis by (simp only: repeat_mid)
qed

lemma view_cells:
  assumes "0 \<le> H" "0 \<le> W"
  shows "view (Tensor [B, E, nat H, nat W] d) [int B, int E, H * W]
           = Inr (Tensor [B, E, nat H * nat W] d)"
    and "view (Tensor [B, E, nat H * nat W] d) [int B, int E, H, W]
           = Inr (Tensor [B, E, nat H, nat W] d)"
proof -
  have 1: "list_all (\<lambda>d. 0 \<le> d) [int B, int E, H * W]" using assms by simp
  show "view (Tensor [B, E, nat H, nat W] d) [int B, int E, H * W]
           = Inr (Tensor [B, E, nat H * nat W] d)"
    using assms by (simp add: view_nonneg [OF 1] numel_def nat_mult_distrib)
  have 2: "list_all (\<lambda>d. 0 \<le> d) [int B, int E, H, W]" using assms by simp
  show "view (Tensor [B, E, nat H * nat W] d) [int B, int E, H, W]
           = Inr (Tensor [B, E, nat H, nat W] d)"
    using assms by (simp add: view_nonneg [OF 2] numel_def nat_mult_distrib)
qed

lemma xy_closed:
  assumes sh: "d_shape cx = [B, M]" "d_shape cy = [B, M]" and wf: "d_wf cx" "d_wf cy"
  shows "xy_forward self (FloatT (Tensor [B, M, E] xd)) (H, W) cx cy =
     (if int64 W \<and> 0 \<le> H \<and> 0 \<le> W \<and> int64 (int B * (int E * (H * W))) \<and> int64 (int B)
         \<and> int64 (int E) \<and> int64 H
      then
        thn (if scatter_type self = ''cover''
             then scatter_inplace
                    (Tensor [B, E, nat H * nat W] (replicate (B * (E * (nat H * nat W))) 0)) 2
                    (LongT (Tensor [B, E, M]
                       (map (\<lambda>k. xy_index W cx cy (k div (E * M) * M + k mod M))
                          [0..<B * (E * M)])))
                    (FloatT (Tensor [B, E, M]
                       (map (\<lambda>k. xd ! (k div (E * M) * (M * E) + (k mod (E * M) div M + k mod M * E)))
                          [0..<B * (E * M)])))
             else if scatter_type self = ''add''
             then scatter_add_inplace
                    (Tensor [B, E, nat H * nat W] (replicate (B * (E * (nat H * nat W))) 0)) 2
                    (LongT (Tensor [B, E, M]
                       (map (\<lambda>k. xy_index W cx cy (k div (E * M) * M + k mod M))
                          [0..<B * (E * M)])))
                    (FloatT (Tensor [B, E, M]
                       (map (\<lambda>k. xd ! (k div (E * M) * (M * E) + (k mod (E * M) div M + k mod M * E)))
                          [0..<B * (E * M)])))
             else Inr (Tensor [B, E, nat H * nat W] (replicate (B * (E * (nat H * nat W))) 0)))
          (\<lambda>output. view output [int B, int E, H, W])
      else Inl RuntimeError)"
proof (cases "int64 W")
  case False
  then have "d_mul cx W = Inl RuntimeError"
    using xy_indices(1) [OF sh wf, of W] by simp
  then show ?thesis using False by (simp add: xy_forward_def permute_3d del: One_nat_def)
next
  case W: True
  define cxw where "cxw = projr (d_mul cx W)"
  have m: "d_mul cx W = Inr cxw"
    using xy_indices(1) [OF sh wf, of W] W unfolding cxw_def by simp
  obtain t where t: "d_add cxw cy = Inr t"
    and lt: "long t = Tensor [B, M] (map (xy_index W cx cy) [0..<B * M])"
    using xy_indices(2) [OF sh wf W] unfolding cxw_def by auto
  have head: "xy_forward self (FloatT (Tensor [B, M, E] xd)) (H, W) cx cy =
     thn (zeros [int B, int E, H, W]) (\<lambda>output.
       thn (view output [int B, int E, H * W]) (\<lambda>output.
       thn (if scatter_type self = ''cover''
            then scatter_inplace output 2
                    (LongT (Tensor [B, E, M]
                       (map (\<lambda>k. xy_index W cx cy (k div (E * M) * M + k mod M))
                          [0..<B * (E * M)])))
                    (FloatT (Tensor [B, E, M]
                       (map (\<lambda>k. xd ! (k div (E * M) * (M * E) + (k mod (E * M) div M + k mod M * E)))
                          [0..<B * (E * M)])))
            else if scatter_type self = ''add''
            then scatter_add_inplace output 2
                    (LongT (Tensor [B, E, M]
                       (map (\<lambda>k. xy_index W cx cy (k div (E * M) * M + k mod M))
                          [0..<B * (E * M)])))
                    (FloatT (Tensor [B, E, M]
                       (map (\<lambda>k. xd ! (k div (E * M) * (M * E) + (k mod (E * M) div M + k mod M * E)))
                          [0..<B * (E * M)])))
            else Inr output) (\<lambda>output.
       thn (view output [int B, int E, H, W]) Inr)))"
    unfolding xy_forward_def
    by (simp add: permute_3d m t lt unsqueeze_2d repeat_mid_map del: One_nat_def long.simps
        split del: if_split cong: if_cong)
  show ?thesis
  proof (cases "0 \<le> H \<and> 0 \<le> W \<and> int64 (int B * (int E * (H * W))) \<and> int64 (int B)
         \<and> int64 (int E) \<and> int64 H")
    case True
    then have z: "zeros [int B, int E, H, W]
        = Inr (Tensor [B, E, nat H, nat W] (replicate (B * (E * (nat H * nat W))) 0))"
      using W by (simp add: zeros_4d)
    have HW: "0 \<le> H" "0 \<le> W" using True by simp_all
    show ?thesis
      unfolding head z thn_Inr view_cells(1) [OF HW] using True W
      by (simp cong: if_cong)
  next
    case False
    then have z: "zeros [int B, int E, H, W] = Inl RuntimeError"
      unfolding zeros_4d by auto
    show ?thesis
      unfolding head z using False by auto
  qed
qed

lemma row_split:
  fixes k E M :: nat
  shows "k div (E * M) * E + k mod (E * M) div M = k div M"
proof -
  have 1: "k div (E * M) = k div M div E"
    using div_mult2_eq [of k M E] by (simp only: mult.commute [of E M])
  have 2: "k mod (E * M) div M = k div M mod E"
  proof (cases "M = 0")
    case True
    then show ?thesis by simp
  next
    case False
    have "k mod (M * E) = M * (k div M mod E) + k mod M" by (rule mod_mult2_eq)
    then have "k mod (M * E) div M = (M * (k div M mod E) + k mod M) div M" by simp
    also have "\<dots> = k div M mod E" using False by simp
    finally show ?thesis by (simp add: mult.commute)
  qed
  show ?thesis unfolding 1 2 by simp
qed

lemma row_address:
  fixes k E M L :: nat
  shows "k div (E * M) * (E * L) + k mod (E * M) div M * L = k div M * L"
proof -
  have "k div (E * M) * (E * L) + k mod (E * M) div M * L
      = (k div (E * M) * E + k mod (E * M) div M) * L"
    by (simp add: algebra_simps)
  then show ?thesis by (simp only: row_split)
qed

lemma flat_3d:
  fixes k E M :: nat
  shows "k div (E * M) * (E * M) + (k mod (E * M) div M * M + k mod (E * M) mod M) = k"
proof -
  have "k mod (E * M) div M * M + k mod (E * M) mod M = k mod (E * M)"
    by (rule div_mult_mod_eq)
  then show ?thesis by (simp only: div_mult_mod_eq)
qed

lemma scatter_step_3d:
  "scatter_step upd [B, E, L] 2 (Tensor [B, E, M] idx) (Tensor [B, E, M] sd) k out =
     out[(k div M) * L + nat (idx ! k) :=
           upd (out ! ((k div M) * L + nat (idx ! k))) (sd ! k)]"
proof -
  have a: "k div (E * M) * (E * L) + (k mod (E * M) div M * L + nat (idx ! k))
         = k div M * L + nat (idx ! k)"
    using row_address [of k E M L] by simp
  have b: "k div (E * M) * (E * M) + k mod (E * M) = k"
    by (rule div_mult_mod_eq)
  show ?thesis
    by (simp add: scatter_step_def Let_def a b)
qed

lemma scatter_impl_3d:
  "scatter_impl upd (Tensor [B, E, L] zd) 2 (Tensor [B, E, M] idx) (Tensor [B, E, M] sd) =
     (if B * (E * M) = 0 then Inr (Tensor [B, E, L] zd)
      else if \<not> list_all (\<lambda>i. 0 \<le> i \<and> i < int L) idx then Inl RuntimeError
      else Inr (Tensor [B, E, L]
             (fold (\<lambda>k out. out[(k div M) * L + nat (idx ! k) :=
                      upd (out ! ((k div M) * L + nat (idx ! k))) (sd ! k)])
                [0..<B * (E * M)] zd)))"
proof -
  have "scatter_step upd [B, E, L] 2 (Tensor [B, E, M] idx) (Tensor [B, E, M] sd)
      = (\<lambda>k out. out[(k div M) * L + nat (idx ! k) :=
                      upd (out ! ((k div M) * L + nat (idx ! k))) (sd ! k)])"
    by (intro ext) (rule scatter_step_3d)
  then show ?thesis
    by (simp add: scatter_impl_def numel_def upt_rec_numeral)
qed

lemma xy_scattered:
  assumes S: "(if st = ''cover''
             then scatter_inplace (Tensor [B, E, L] (replicate (B * (E * L)) 0)) 2
                    (LongT (Tensor [B, E, M] idx)) (FloatT (Tensor [B, E, M] sd))
             else if st = ''add''
             then scatter_add_inplace (Tensor [B, E, L] (replicate (B * (E * L)) 0)) 2
                    (LongT (Tensor [B, E, M] idx)) (FloatT (Tensor [B, E, M] sd))
             else Inr (Tensor [B, E, L] (replicate (B * (E * L)) 0))) = Inr o1"
    and li: "length idx = B * (E * M)"
  shows "\<exists>D. o1 = Tensor [B, E, L] D \<and> length D = B * (E * L)
           \<and> (st \<in> {''cover'', ''add''} \<longrightarrow> (\<forall>k<B * E * M. 0 \<le> idx ! k \<and> idx ! k < int L))
           \<and> (\<forall>n<B * E. \<forall>a<L. D ! (n * L + a)
                 = fold (\<lambda>j acc. if idx ! (n * M + j) = int a
                                  then write_policy st acc (sd ! (n * M + j)) else acc)
                     [0..<M] 0)"
proof -
  let ?Z = "replicate (B * (E * L)) (0::real)"
  have zero: "?Z ! (n * L + a) = 0" if "n < B * E" "a < L" for n a
  proof -
    have "n * L + a < Suc n * L" using that(2) by simp
    also have "\<dots> \<le> (B * E) * L" using that(1) by (intro mult_le_mono1) simp
    finally show ?thesis by (simp add: mult.assoc)
  qed
  have general: "\<exists>D. o1 = Tensor [B, E, L] D \<and> length D = B * (E * L)
           \<and> (\<forall>k<B * E * M. 0 \<le> idx ! k \<and> idx ! k < int L)
           \<and> (\<forall>n<B * E. \<forall>a<L. D ! (n * L + a)
                 = fold (\<lambda>j acc. if idx ! (n * M + j) = int a
                                  then upd acc (sd ! (n * M + j)) else acc)
                     [0..<M] 0)"
    if imp: "scatter_impl upd (Tensor [B, E, L] ?Z) 2 (Tensor [B, E, M] idx) (Tensor [B, E, M] sd)
               = Inr o1"
    for upd
  proof (cases "B * (E * M) = 0")
    case True
    have o1: "o1 = Tensor [B, E, L] ?Z" using imp [unfolded scatter_impl_3d] True by simp
    have "fold (\<lambda>j acc. if idx ! (n * M + j) = int a then upd acc (sd ! (n * M + j)) else acc)
            [0..<M] (0::real) = 0" if "n < B * E" for n a
    proof -
      have "M = 0" using True that by auto
      then show ?thesis by simp
    qed
    moreover have "\<forall>k<B * E * M. 0 \<le> idx ! k \<and> idx ! k < int L"
      using True by (auto simp: mult.assoc)
    ultimately show ?thesis using o1 zero by simp
  next
    case False
    have all: "list_all (\<lambda>i. 0 \<le> i \<and> i < int L) idx"
      using imp [unfolded scatter_impl_3d] False by (simp split: if_splits)
    then have rng: "\<forall>k<B * E * M. 0 \<le> idx ! k \<and> idx ! k < int L"
      using li by (simp add: list_all_length mult.assoc)
    let ?D = "fold (\<lambda>k out. out[(k div M) * L + nat (idx ! k) :=
                      upd (out ! ((k div M) * L + nat (idx ! k))) (sd ! k)])
                [0..<B * E * M] ?Z"
    have o1: "o1 = Tensor [B, E, L] ?D"
      using imp [unfolded scatter_impl_3d] False all by (simp add: mult.assoc)
    have len: "length ?D = B * (E * L)" by (simp add: fold_update_length)
    have cell: "?D ! (n * L + a)
         = fold (\<lambda>j acc. if idx ! (n * M + j) = int a then upd acc (sd ! (n * M + j)) else acc)
             [0..<M] 0"
      if n: "n < B * E" and a: "a < L" for n a
    proof -
      have "?D ! (n * L + a)
          = fold (\<lambda>j acc. if idx ! (n * M + j) = int a then upd acc (sd ! (n * M + j)) else acc)
              [0..<M] (?Z ! (n * L + a))"
        by (rule scatter_rows_cell [OF _ rng n a]) (simp add: mult.assoc)
      then show ?thesis using zero [OF n a] by simp
    qed
    show ?thesis using o1 len rng cell by blast
  qed
  consider "st = ''cover''" | "st \<noteq> ''cover''" "st = ''add''" | "st \<noteq> ''cover''" "st \<noteq> ''add''"
    by blast
  then show ?thesis
  proof cases
    case 1
    then have "scatter_impl (write_policy st) (Tensor [B, E, L] ?Z) 2
                 (Tensor [B, E, M] idx) (Tensor [B, E, M] sd) = Inr o1"
      using S by (simp add: scatter_inplace_def write_policy_cover)
    from general [OF this] show ?thesis by blast
  next
    case 2
    then have "scatter_impl (write_policy st) (Tensor [B, E, L] ?Z) 2
                 (Tensor [B, E, M] idx) (Tensor [B, E, M] sd) = Inr o1"
      using S by (simp add: scatter_add_inplace_def write_policy_add)
    from general [OF this] show ?thesis by blast
  next
    case 3
    then have o1: "o1 = Tensor [B, E, L] ?Z" using S by simp
    have wp: "write_policy st acc v = acc" for acc v
      using 3 by (simp add: write_policy_def)
    have fd: "fold (\<lambda>j acc. if P j then write_policy st acc (f j) else acc) ks z = z"
      for P f ks and z :: real
      by (induction ks) (simp_all add: wp)
    show ?thesis using zero o1 3 by (simp add: fd)
  qed
qed

lemma entity_decomp:
  fixes b e j E M :: nat
  assumes j: "j < M" and e: "e < E"
  shows "((b * E + e) * M + j) div (E * M) = b"
    and "((b * E + e) * M + j) mod M = j"
    and "((b * E + e) * M + j) mod (E * M) div M = e"
    and "(b * E + e) * M + j < Suc b * (E * M)"
proof -
  have lt: "e * M + j < E * M"
  proof -
    have "e * M + j < Suc e * M" using j by simp
    also have "\<dots> \<le> E * M" using e by (intro mult_le_mono1) simp
    finally show ?thesis .
  qed
  have eq: "(b * E + e) * M + j = b * (E * M) + (e * M + j)"
    by (simp add: algebra_simps)
  have pos: "0 < E * M" using lt by (cases "E * M = 0") simp_all
  show "((b * E + e) * M + j) div (E * M) = b"
    unfolding eq using lt pos by simp
  show "((b * E + e) * M + j) mod M = j"
    using j by simp
  have "((b * E + e) * M + j) mod (E * M) = e * M + j"
    unfolding eq using lt pos by simp
  then show "((b * E + e) * M + j) mod (E * M) div M = e"
    using j by simp
  show "(b * E + e) * M + j < Suc b * (E * M)"
    unfolding eq using lt by simp
qed

lemma xy_result:
  assumes fw: "xy_forward self (FloatT (Tensor [B, M, E] xd)) (H, W) cx cy = Inr out"
    and sh: "d_shape cx = [B, M]" "d_shape cy = [B, M]" and wf: "d_wf cx" "d_wf cy"
  shows "0 \<le> H \<and> 0 \<le> W \<and> int64 W \<and> int64 H \<and> int64 (int B * (int E * (H * W)))"
    and "shape out = [B, E, nat H, nat W]"
    and "length (data out) = B * (E * (nat H * nat W))"
    and "scatter_type self \<in> {''cover'', ''add''} \<Longrightarrow> 0 < E \<Longrightarrow> k < B * M \<Longrightarrow>
           0 \<le> xy_index W cx cy k \<and> xy_index W cx cy k < int (nat H * nat W)"
    and "b < B \<Longrightarrow> e < E \<Longrightarrow> r < nat H \<Longrightarrow> c < nat W \<Longrightarrow>
           get out [b, e, r, c]
           = fold (\<lambda>m acc. if xy_index W cx cy (b * M + m) = int (r * nat W + c)
                            then write_policy (scatter_type self) acc (xd ! ((b * M + m) * E + e))
                            else acc)
               [0..<M] 0"
proof -
  let ?L = "nat H * nat W"
  let ?I = "map (\<lambda>k. xy_index W cx cy (k div (E * M) * M + k mod M)) [0..<B * (E * M)]"
  let ?X = "map (\<lambda>k. xd ! (k div (E * M) * (M * E) + (k mod (E * M) div M + k mod M * E)))
              [0..<B * (E * M)]"
  let ?C = "int64 W \<and> 0 \<le> H \<and> 0 \<le> W \<and> int64 (int B * (int E * (H * W))) \<and> int64 (int B)
         \<and> int64 (int E) \<and> int64 H"
  note closed = xy_closed [OF sh wf, of self E xd H W]
  have C: ?C
  proof (rule ccontr)
    assume "\<not> ?C"
    then have "xy_forward self (FloatT (Tensor [B, M, E] xd)) (H, W) cx cy = Inl RuntimeError"
      unfolding closed by (simp only: if_False)
    then show False using fw by simp
  qed
  have HW: "0 \<le> H" "0 \<le> W" using C by simp_all
  from fw [unfolded closed if_P [OF C]] obtain o1 where
    S: "(if scatter_type self = ''cover''
             then scatter_inplace (Tensor [B, E, ?L] (replicate (B * (E * ?L)) 0)) 2
                    (LongT (Tensor [B, E, M] ?I)) (FloatT (Tensor [B, E, M] ?X))
             else if scatter_type self = ''add''
             then scatter_add_inplace (Tensor [B, E, ?L] (replicate (B * (E * ?L)) 0)) 2
                    (LongT (Tensor [B, E, M] ?I)) (FloatT (Tensor [B, E, M] ?X))
             else Inr (Tensor [B, E, ?L] (replicate (B * (E * ?L)) 0))) = Inr o1"
    and V: "view o1 [int B, int E, H, W] = Inr out"
    unfolding thn_eq_Inr by blast
  have li: "length ?I = B * (E * M)" by simp
  from xy_scattered [OF S li] obtain D where
    o1: "o1 = Tensor [B, E, ?L] D" and len: "length D = B * (E * ?L)"
    and rng: "scatter_type self \<in> {''cover'', ''add''} \<longrightarrow>
                (\<forall>k<B * E * M. 0 \<le> ?I ! k \<and> ?I ! k < int ?L)"
    and cell: "\<forall>n<B * E. \<forall>a<?L. D ! (n * ?L + a)
                 = fold (\<lambda>j acc. if ?I ! (n * M + j) = int a
                                  then write_policy (scatter_type self) acc (?X ! (n * M + j))
                                  else acc)
                     [0..<M] 0"
    by blast
  have out: "out = Tensor [B, E, nat H, nat W] D"
    using V unfolding o1 view_cells(2) [OF HW] by simp
  have bound: "(b * E + e) * M + j < B * (E * M)" if "b < B" "e < E" "j < M" for b e j
  proof -
    have "(b * E + e) * M + j < Suc b * (E * M)" using that(3,2) by (rule entity_decomp(4))
    also have "\<dots> \<le> B * (E * M)" using that(1) by (intro mult_le_mono1) simp
    finally show ?thesis .
  qed
  have I: "?I ! ((b * E + e) * M + j) = xy_index W cx cy (b * M + j)"
    if "b < B" "e < E" "j < M" for b e j
    using bound [OF that] entity_decomp(1,2) [OF that(3,2), of b] by simp
  have X: "?X ! ((b * E + e) * M + j) = xd ! ((b * M + j) * E + e)"
    if "b < B" "e < E" "j < M" for b e j
  proof -
    have "?X ! ((b * E + e) * M + j) = xd ! (b * (M * E) + (e + j * E))"
      using bound [OF that] entity_decomp(1,2,3) [OF that(3,2), of b] by simp
    also have "b * (M * E) + (e + j * E) = (b * M + j) * E + e"
      by (simp add: algebra_simps)
    finally show ?thesis .
  qed
  show "0 \<le> H \<and> 0 \<le> W \<and> int64 W \<and> int64 H \<and> int64 (int B * (int E * (H * W)))"
    using C by simp
  show "shape out = [B, E, nat H, nat W]" by (simp add: out)
  show "length (data out) = B * (E * (nat H * nat W))" by (simp add: out len)
  show "0 \<le> xy_index W cx cy k \<and> xy_index W cx cy k < int (nat H * nat W)"
    if st: "scatter_type self \<in> {''cover'', ''add''}" and E: "0 < E" and k: "k < B * M"
  proof -
    have M: "0 < M" using k by (cases "M = 0") simp_all
    have b: "k div M < B" using k by (simp add: less_mult_imp_div_less)
    have j: "k mod M < M" using M by simp
    have "(k div M * E + 0) * M + k mod M < B * (E * M)" using b E j by (rule bound)
    then have "(k div M * E + 0) * M + k mod M < B * E * M" by (simp only: mult.assoc)
    then have "0 \<le> ?I ! ((k div M * E + 0) * M + k mod M)
             \<and> ?I ! ((k div M * E + 0) * M + k mod M) < int ?L"
      using rng st by blast
    then show ?thesis unfolding I [OF b E j] by simp
  qed
  show "get out [b, e, r, c]
           = fold (\<lambda>m acc. if xy_index W cx cy (b * M + m) = int (r * nat W + c)
                            then write_policy (scatter_type self) acc (xd ! ((b * M + m) * E + e))
                            else acc)
               [0..<M] 0"
    if b: "b < B" and e: "e < E" and r: "r < nat H" and c: "c < nat W"
  proof -
    have a: "r * nat W + c < ?L"
    proof -
      have "r * nat W + c < Suc r * nat W" using c by simp
      also have "\<dots> \<le> nat H * nat W" using r by (intro mult_le_mono1) simp
      finally show ?thesis .
    qed
    have n: "b * E + e < B * E"
    proof -
      have "b * E + e < Suc b * E" using e by simp
      also have "\<dots> \<le> B * E" using b by (intro mult_le_mono1) simp
      finally show ?thesis .
    qed
    have "get out [b, e, r, c] = D ! ((b * E + e) * ?L + (r * nat W + c))"
      by (simp add: out get_def algebra_simps)
    also have "\<dots> = fold (\<lambda>j acc. if ?I ! ((b * E + e) * M + j) = int (r * nat W + c)
                                  then write_policy (scatter_type self) acc
                                         (?X ! ((b * E + e) * M + j))
                                  else acc)
                     [0..<M] 0"
      using cell n a by blast
    also have "\<dots> = fold (\<lambda>m acc. if xy_index W cx cy (b * M + m) = int (r * nat W + c)
                            then write_policy (scatter_type self) acc (xd ! ((b * M + m) * E + e))
                            else acc)
               [0..<M] 0"
    proof (rule fold_cong [OF refl refl])
      fix j assume "j \<in> set [0..<M]"
      then have j: "j < M" by simp
      show "(\<lambda>acc. if ?I ! ((b * E + e) * M + j) = int (r * nat W + c)
                    then write_policy (scatter_type self) acc (?X ! ((b * E + e) * M + j))
                    else acc)
          = (\<lambda>acc. if xy_index W cx cy (b * M + j) = int (r * nat W + c)
                    then write_policy (scatter_type self) acc (xd ! ((b * M + j) * E + e))
                    else acc)"
        by (simp only: I [OF b e j] X [OF b e j])
    qed
    finally show ?thesis .
  qed
qed

section \<open>Coordinates inside the grid, and success of the entry points\<close>

lemma int64_between: "0 \<le> v \<Longrightarrow> v \<le> u \<Longrightarrow> int64 u \<Longrightarrow> int64 v"
  by (simp add: int64_def)

lemma cell_bounds:
  fixes row col H W :: int and b B :: nat
  assumes "0 \<le> row" "row < H" "0 \<le> col" "col < W" "b < B"
  shows "0 \<le> row * W" and "row * W + col < H * W"
    and "0 \<le> int b * (H * W)"
    and "int b * (H * W) + (row * W + col) < int B * (H * W)"
    and "H * W \<le> int B * (H * W)"
proof -
  have W: "0 < W" and H: "0 < H" using assms by simp_all
  show 1: "0 \<le> row * W" using assms W by simp
  have "row + 1 \<le> H" using assms by simp
  then have "(row + 1) * W \<le> H * W" using W by (intro mult_right_mono) simp_all
  then show 2: "row * W + col < H * W" using assms by (simp add: algebra_simps)
  have HW: "0 < H * W" using H W by simp
  show "0 \<le> int b * (H * W)" using HW by simp
  have "int b + 1 \<le> int B" using assms by simp
  then have 3: "(int b + 1) * (H * W) \<le> int B * (H * W)"
    using HW by (intro mult_right_mono) simp_all
  then show "int b * (H * W) + (row * W + col) < int B * (H * W)"
    using 2 by (simp add: algebra_simps)
  have "1 \<le> int B" using assms by simp
  then have "1 * (H * W) \<le> int B * (H * W)" using HW by (intro mult_right_mono) simp_all
  then show "H * W \<le> int B * (H * W)" by simp
qed

lemma forward_address_in_range:
  assumes "0 \<le> row" "row < H" "0 \<le> col" "col < W" "b < B" "int64 (int B * H * W)"
  shows "forward_address H W b row col = int b * (H * W) + (row * W + col)"
    and "0 \<le> forward_address H W b row col"
    and "forward_address H W b row col < int B * (H * W)"
proof -
  note cb = cell_bounds [OF assms(1-5)]
  have top: "int64 (int B * (H * W))" using assms(6) by (simp add: mult.assoc)
  have l1: "row * W \<le> int B * (H * W)" using cb assms by linarith
  have l2: "0 \<le> row * W + col" "row * W + col \<le> int B * (H * W)" using cb assms by linarith+
  have l3: "int b * (H * W) \<le> int B * (H * W)" using cb assms by linarith
  have l4: "0 \<le> row * W + col + int b * (H * W)"
    "row * W + col + int b * (H * W) \<le> int B * (H * W)" using cb assms by linarith+
  have 1: "wrap64 (row * W) = row * W"
    by (intro wrap64_id int64_between [OF cb(1) l1 top])
  have 2: "wrap64 (row * W + col) = row * W + col"
    by (intro wrap64_id int64_between [OF l2 top])
  have 3: "wrap64 (int b * (H * W)) = int b * (H * W)"
    by (intro wrap64_id int64_between [OF cb(3) l3 top])
  have 4: "wrap64 (row * W + col + int b * (H * W)) = row * W + col + int b * (H * W)"
    by (intro wrap64_id int64_between [OF l4 top])
  show e: "forward_address H W b row col = int b * (H * W) + (row * W + col)"
    by (simp add: forward_address_def 1 2 3 4)
  show "0 \<le> forward_address H W b row col" unfolding e using cb assms by simp
  show "forward_address H W b row col < int B * (H * W)" unfolding e using cb by simp
qed

lemma xy_address_in_range:
  assumes "0 \<le> cx" "cx < H" "0 \<le> cy" "cy < W" "int64 (H * W)"
  shows "xy_address W cx cy = cx * W + cy"
    and "0 \<le> xy_address W cx cy"
    and "xy_address W cx cy < H * W"
proof -
  have b: "(0::nat) < 1" by simp
  note cb = cell_bounds [OF assms(1-4) b]
  have l1: "cx * W \<le> H * W" using cb assms by linarith
  have l2: "0 \<le> cx * W + cy" "cx * W + cy \<le> H * W" using cb assms by linarith+
  have 1: "wrap64 (cx * W) = cx * W"
    by (intro wrap64_id int64_between [OF cb(1) l1 assms(5)])
  have 2: "wrap64 (cx * W + cy) = cx * W + cy"
    by (intro wrap64_id int64_between [OF l2 assms(5)])
  show e: "xy_address W cx cy = cx * W + cy" by (simp add: xy_address_def 1 2)
  show "0 \<le> xy_address W cx cy" unfolding e using cb assms by simp
  show "xy_address W cx cy < H * W" unfolding e using cb by simp
qed

lemma forward_succeeds:
  assumes HW: "0 \<le> H" "0 \<le> W" and N: "0 < N"
    and fit: "int64 W" "int64 (H * W)" "int64 (int N * (int B * H * W))" "int64 (int N)"
      "int64 (int B * H * W)"
    and rng: "scatter_type self \<in> {''cover'', ''add''} \<Longrightarrow>
       \<forall>j<B * M. 0 \<le> location_address H W M ld j
                \<and> location_address H W M ld j < int (B * (nat H * nat W))"
  shows "\<exists>out. forward self (FloatT (Tensor [B, M, N] xd)) (H, W) (LongT (Tensor [B, M, 2] ld))
           = Inr out"
proof -
  let ?L = "nat (int B * H * W)"
  let ?Z = "Tensor [N, ?L] (replicate (N * ?L) (0::real))"
  let ?I = "Tensor [N, B * M]
              (map (\<lambda>k. location_address H W M ld (k mod (B * M))) [0..<N * (B * M)])"
  let ?X = "Tensor [N, B * M]
              (map (\<lambda>k. xd ! (k div (B * M) + k mod (B * M) * N)) [0..<N * (B * M)])"
  have nn: "0 \<le> int B * H * W" using HW by simp
  have L: "?L = B * (nat H * nat W)" using HW by (rule nat_cells)
  have C: "int64 (H * W) \<and> int64 W \<and> 0 < N \<and> 0 \<le> int B * H * W
         \<and> int64 (int N * (int B * H * W)) \<and> int64 (int N) \<and> int64 (int B * H * W)"
    using N fit nn by simp
  have impl: "\<exists>D. scatter_impl upd ?Z 1 ?I ?X = Inr (Tensor [N, ?L] D)"
    if "scatter_type self \<in> {''cover'', ''add''}" for upd
  proof -
    have "\<forall>j<B * M. 0 \<le> location_address H W M ld j \<and> location_address H W M ld j < int ?L"
      using rng [OF that] unfolding L .
    then show ?thesis unfolding scatter_2d_map by simp
  qed
  have "\<exists>D. (if scatter_type self = ''cover'' then scatter_inplace ?Z 1 (LongT ?I) (FloatT ?X)
             else if scatter_type self = ''add''
             then scatter_add_inplace ?Z 1 (LongT ?I) (FloatT ?X)
             else Inr ?Z) = Inr (Tensor [N, ?L] D)"
    using impl by (auto simp: scatter_inplace_def scatter_add_inplace_def)
  then obtain D where S: "(if scatter_type self = ''cover''
             then scatter_inplace ?Z 1 (LongT ?I) (FloatT ?X)
             else if scatter_type self = ''add''
             then scatter_add_inplace ?Z 1 (LongT ?I) (FloatT ?X)
             else Inr ?Z) = Inr (Tensor [N, ?L] D)" ..
  obtain out where P: "permute (Tensor [N, B, nat H, nat W] D) [1, 0, 2, 3] = Inr out"
    using permute_4d_ok by blast
  have "forward self (FloatT (Tensor [B, M, N] xd)) (H, W) (LongT (Tensor [B, M, 2] ld)) = Inr out"
    unfolding forward_closed if_P [OF C] location_address_def [symmetric] S thn_Inr
      reshape_4d [OF nn] using HW P by simp
  then show ?thesis ..
qed

lemma xy_succeeds:
  assumes sh: "d_shape cx = [B, M]" "d_shape cy = [B, M]" and wf: "d_wf cx" "d_wf cy"
    and HW: "0 \<le> H" "0 \<le> W"
    and fit: "int64 W" "int64 H" "int64 (int B * (int E * (H * W)))" "int64 (int B)" "int64 (int E)"
    and rng: "scatter_type self \<in> {''cover'', ''add''} \<Longrightarrow>
       \<forall>k<B * M. 0 \<le> xy_index W cx cy k \<and> xy_index W cx cy k < int (nat H * nat W)"
  shows "\<exists>out. xy_forward self (FloatT (Tensor [B, M, E] xd)) (H, W) cx cy = Inr out"
proof -
  let ?L = "nat H * nat W"
  let ?Z = "Tensor [B, E, ?L] (replicate (B * (E * ?L)) (0::real))"
  let ?Il = "map (\<lambda>k. xy_index W cx cy (k div (E * M) * M + k mod M)) [0..<B * (E * M)]"
  let ?X = "Tensor [B, E, M]
              (map (\<lambda>k. xd ! (k div (E * M) * (M * E) + (k mod (E * M) div M + k mod M * E)))
                 [0..<B * (E * M)])"
  have C: "int64 W \<and> 0 \<le> H \<and> 0 \<le> W \<and> int64 (int B * (int E * (H * W))) \<and> int64 (int B)
         \<and> int64 (int E) \<and> int64 H"
    using HW fit by simp
  have impl: "\<exists>D. scatter_impl upd ?Z 2 (Tensor [B, E, M] ?Il) ?X = Inr (Tensor [B, E, ?L] D)"
    if "scatter_type self \<in> {''cover'', ''add''}" for upd
  proof -
    have "list_all (\<lambda>i. 0 \<le> i \<and> i < int ?L) ?Il"
      using rng [OF that] by (auto simp: list_all_iff row_col_lt)
    then show ?thesis unfolding scatter_impl_3d by simp
  qed
  have "\<exists>D. (if scatter_type self = ''cover''
             then scatter_inplace ?Z 2 (LongT (Tensor [B, E, M] ?Il)) (FloatT ?X)
             else if scatter_type self = ''add''
             then scatter_add_inplace ?Z 2 (LongT (Tensor [B, E, M] ?Il)) (FloatT ?X)
             else Inr ?Z) = Inr (Tensor [B, E, ?L] D)"
    using impl by (auto simp: scatter_inplace_def scatter_add_inplace_def)
  then obtain D where S: "(if scatter_type self = ''cover''
             then scatter_inplace ?Z 2 (LongT (Tensor [B, E, M] ?Il)) (FloatT ?X)
             else if scatter_type self = ''add''
             then scatter_add_inplace ?Z 2 (LongT (Tensor [B, E, M] ?Il)) (FloatT ?X)
             else Inr ?Z) = Inr (Tensor [B, E, ?L] D)" ..
  have "xy_forward self (FloatT (Tensor [B, M, E] xd)) (H, W) cx cy
      = Inr (Tensor [B, E, nat H, nat W] D)"
    unfolding xy_closed [OF sh wf] if_P [OF C] S thn_Inr view_cells(2) [OF HW] ..
  then show ?thesis ..
qed

section \<open>The value of an output cell\<close>





lemma flat_entity:
  fixes j B M :: nat
  assumes "j < B * M"
  shows "j div M < B" and "j mod M < M" and "j div M * M + j mod M = j"
proof -
  have M: "0 < M" using assms by (cases "M = 0") simp_all
  show "j div M < B" using assms by (simp add: less_mult_imp_div_less)
  show "j mod M < M" using M by simp
  show "j div M * M + j mod M = j" by simp
qed


lemma get_features: "get (Tensor [B, M, N] xd) [b, m, n] = xd ! ((b * M + m) * N + n)"
  by (simp add: get_def algebra_simps)

lemma get_location:
  "get (Tensor [B, M, 2] ld) [b, m, 0] = ld ! ((b * M + m) * 2)"
  "get (Tensor [B, M, 2] ld) [b, m, Suc 0] = ld ! ((b * M + m) * 2 + 1)"
  "get (Tensor [B, M, 2] ld) [b, m, 1] = ld ! ((b * M + m) * 2 + 1)"
  by (simp_all add: get_def add_mult_distrib mult.assoc)

lemma location_address_entity:
  "m < M \<Longrightarrow>
   location_address H W M ld (b * M + m)
     = forward_address H W b (get (Tensor [B, M, 2] ld) [b, m, 0]) (get (Tensor [B, M, 2] ld) [b, m, 1])"
  by (simp add: location_address_def get_location)

lemma forward_cell:
  assumes fw: "forward self (FloatT x) (H, W) (LongT loc) = Inr out"
    and sx: "shape x = [B, M, N]" and sl: "shape loc = [B, M, 2]"
    and cell: "b < B" "n < N" "r < nat H" "c < nat W"
  shows "get out [b, n, r, c]
       = fold (\<lambda>j acc. if forward_targets H W loc (j div M) (j mod M) b r c
                        then write_policy (scatter_type self) acc (get x [j div M, j mod M, n])
                        else acc)
           [0..<B * M] 0"
proof -
  have x: "x = Tensor [B, M, N] (data x)" using sx by (cases x) simp
  have loc: "loc = Tensor [B, M, 2] (data loc)" using sl by (cases loc) simp
  have fw': "forward self (FloatT (Tensor [B, M, N] (data x))) (H, W)
               (LongT (Tensor [B, M, 2] (data loc))) = Inr out"
    using fw x loc by simp
  have "get out [b, n, r, c]
      = fold (\<lambda>j acc. if location_address H W M (data loc) j
                            = int (b * (nat H * nat W) + r * nat W + c)
                       then write_policy (scatter_type self) acc (data x ! (j * N + n))
                       else acc)
          [0..<B * M] 0"
    using fw' cell by (rule forward_result(5))
  also have "\<dots> = fold (\<lambda>j acc. if forward_targets H W loc (j div M) (j mod M) b r c
                        then write_policy (scatter_type self) acc (get x [j div M, j mod M, n])
                        else acc)
           [0..<B * M] 0"
  proof (rule fold_cong [OF refl refl])
    fix j assume "j \<in> set [0..<B * M]"
    then have j: "j < B * M" by simp
    note fe = flat_entity [OF j]
    have a: "location_address H W M (data loc) j
           = forward_address H W (j div M) (get loc [j div M, j mod M, 0])
               (get loc [j div M, j mod M, 1])"
      using location_address_entity [OF fe(2), of H W "data loc" "j div M" B] fe(3) loc
      by simp
    have v: "data x ! (j * N + n) = get x [j div M, j mod M, n]"
      using get_features [of B M N "data x" "j div M" "j mod M" n] fe(3) x by simp
    show "(\<lambda>acc. if location_address H W M (data loc) j
                            = int (b * (nat H * nat W) + r * nat W + c)
                  then write_policy (scatter_type self) acc (data x ! (j * N + n)) else acc)
        = (\<lambda>acc. if forward_targets H W loc (j div M) (j mod M) b r c
                  then write_policy (scatter_type self) acc (get x [j div M, j mod M, n])
                  else acc)"
      unfolding forward_targets_def a v ..
  qed
  finally show ?thesis .
qed

lemma xy_cell:
  assumes fw: "xy_forward self (FloatT x) (H, W) cx cy = Inr out"
    and sx: "shape x = [B, M, E]"
    and sh: "d_shape cx = [B, M]" "d_shape cy = [B, M]" and wf: "d_wf cx" "d_wf cy"
    and cell: "b < B" "e < E" "r < nat H" "c < nat W"
  shows "get out [b, e, r, c]
       = fold (\<lambda>m acc. if xy_targets W cx cy b m r c
                        then write_policy (scatter_type self) acc (get x [b, m, e])
                        else acc)
           [0..<M] 0"
proof -
  have x: "x = Tensor [B, M, E] (data x)" using sx by (cases x) simp
  have fw': "xy_forward self (FloatT (Tensor [B, M, E] (data x))) (H, W) cx cy = Inr out"
    using fw x by simp
  have "get out [b, e, r, c]
      = fold (\<lambda>m acc. if xy_index W cx cy (b * M + m) = int (r * nat W + c)
                       then write_policy (scatter_type self) acc (data x ! ((b * M + m) * E + e))
                       else acc)
          [0..<M] 0"
    using fw' sh wf cell by (rule xy_result(5))
  also have "\<dots> = fold (\<lambda>m acc. if xy_targets W cx cy b m r c
                        then write_policy (scatter_type self) acc (get x [b, m, e])
                        else acc)
           [0..<M] 0"
  proof (rule fold_cong [OF refl refl])
    fix m assume "m \<in> set [0..<M]"
    have v: "data x ! ((b * M + m) * E + e) = get x [b, m, e]"
      using get_features [of B M E "data x" b m e] x by simp
    have t: "xy_targets W cx cy b m r c
           \<longleftrightarrow> xy_index W cx cy (b * M + m) = int (r * nat W + c)"
      by (simp add: xy_targets_def sh)
    show "(\<lambda>acc. if xy_index W cx cy (b * M + m) = int (r * nat W + c)
                  then write_policy (scatter_type self) acc (data x ! ((b * M + m) * E + e))
                  else acc)
        = (\<lambda>acc. if xy_targets W cx cy b m r c
                  then write_policy (scatter_type self) acc (get x [b, m, e]) else acc)"
      unfolding t v ..
  qed
  finally show ?thesis .
qed

lemma cell_address_eq:
  fixes b b' r r' c c' B H W :: nat
  assumes "r < H" "c < W" "r' < H" "c' < W"
  shows "b * (H * W) + r * W + c = b' * (H * W) + r' * W + c' \<longleftrightarrow> b = b' \<and> r = r' \<and> c = c'"
proof -
  have 1: "r * W + c < H * W"
  proof -
    have "r * W + c < Suc r * W" using assms(2) by simp
    also have "\<dots> \<le> H * W" using assms(1) by (intro mult_le_mono1) simp
    finally show ?thesis .
  qed
  have 2: "r' * W + c' < H * W"
  proof -
    have "r' * W + c' < Suc r' * W" using assms(4) by simp
    also have "\<dots> \<le> H * W" using assms(3) by (intro mult_le_mono1) simp
    finally show ?thesis .
  qed
  have "b * (H * W) + (r * W + c) = b' * (H * W) + (r' * W + c')
        \<longleftrightarrow> b = b' \<and> r * W + c = r' * W + c'"
    using 1 2 by (rule block_address_eq)
  moreover have "r * W + c = r' * W + c' \<longleftrightarrow> r = r' \<and> c = c'"
    using assms(2,4) by (rule block_address_eq)
  ultimately show ?thesis by (simp add: add.assoc)
qed

lemma forward_targets_in_grid:
  assumes g: "in_grid H W (get loc [b, m, 0]) (get loc [b, m, 1])"
    and b: "b < B" and fit: "int64 (int B * H * W)"
    and cell: "r < nat H" "c < nat W"
  shows "forward_targets H W loc b m b' r c
         \<longleftrightarrow> b = b' \<and> get loc [b, m, 0] = int r \<and> get loc [b, m, 1] = int c"
proof -
  let ?row = "get loc [b, m, 0]" and ?col = "get loc [b, m, 1]"
  have rc: "0 \<le> ?row" "?row < H" "0 \<le> ?col" "?col < W" using g by (simp_all add: in_grid_def)
  have H: "H = int (nat H)" and W: "W = int (nat W)" using rc by simp_all
  have a: "forward_address H W b ?row ?col = int b * (H * W) + (?row * W + ?col)"
    using rc b fit by (rule forward_address_in_range(1))
  have "forward_address H W b ?row ?col
      = int (b * (nat H * nat W) + nat ?row * nat W + nat ?col)"
    unfolding a using rc by (simp add: nat_mult_distrib)
  then have "forward_targets H W loc b m b' r c
      \<longleftrightarrow> b * (nat H * nat W) + nat ?row * nat W + nat ?col
          = b' * (nat H * nat W) + r * nat W + c"
    unfolding forward_targets_def by (simp only: of_nat_eq_iff)
  also have "\<dots> \<longleftrightarrow> b = b' \<and> nat ?row = r \<and> nat ?col = c"
    by (rule cell_address_eq) (use rc cell in simp_all)
  also have "\<dots> \<longleftrightarrow> b = b' \<and> ?row = int r \<and> ?col = int c"
    using rc by auto
  finally show ?thesis .
qed

lemma xy_targets_in_grid:
  assumes sh: "shape cx = [B, M]" "shape cy = [B, M]"
    and g: "in_grid H W (get cx [b, m]) (get cy [b, m])"
    and fit: "int64 (H * W)"
    and cell: "r < nat H" "c < nat W"
  shows "xy_targets W (LongT cx) (LongT cy) b m r c
         \<longleftrightarrow> get cx [b, m] = int r \<and> get cy [b, m] = int c"
proof -
  let ?x = "get cx [b, m]" and ?y = "get cy [b, m]"
  have rc: "0 \<le> ?x" "?x < H" "0 \<le> ?y" "?y < W" using g by (simp_all add: in_grid_def)
  have a: "xy_address W ?x ?y = ?x * W + ?y"
    using rc fit by (rule xy_address_in_range(1))
  have "xy_index W (LongT cx) (LongT cy) (ravel (shape cx) [b, m]) = xy_address W ?x ?y"
    by (simp add: get_def sh)
  also have "\<dots> = int (0 * (nat H * nat W) + nat ?x * nat W + nat ?y)"
    unfolding a using rc by (simp add: nat_mult_distrib)
  finally have "xy_targets W (LongT cx) (LongT cy) b m r c
      \<longleftrightarrow> 0 * (nat H * nat W) + nat ?x * nat W + nat ?y = 0 * (nat H * nat W) + r * nat W + c"
    unfolding xy_targets_def by (simp del: of_nat_add of_nat_mult)
  also have "\<dots> \<longleftrightarrow> (0::nat) = 0 \<and> nat ?x = r \<and> nat ?y = c"
    by (rule cell_address_eq) (use rc cell in simp_all)
  also have "\<dots> \<longleftrightarrow> ?x = int r \<and> ?y = int c"
    using rc by auto
  finally show ?thesis .
qed



lemma forward_fit:
  assumes fw: "forward self (FloatT x) (H, W) (LongT loc) = Inr out"
    and sx: "shape x = [B, M, N]" and sl: "shape loc = [B, M, 2]"
  shows "int64 (int B * H * W)" and "0 \<le> H" and "0 \<le> W" and "0 < N"
    and "shape out = [B, N, nat H, nat W]" and "wf out"
proof -
  have x: "x = Tensor [B, M, N] (data x)" using sx by (cases x) simp
  have loc: "loc = Tensor [B, M, 2] (data loc)" using sl by (cases loc) simp
  have fw': "forward self (FloatT (Tensor [B, M, N] (data x))) (H, W)
               (LongT (Tensor [B, M, 2] (data loc))) = Inr out"
    using fw x loc by simp
  note r = forward_result(1-3) [OF fw']
  show "int64 (int B * H * W)" "0 \<le> H" "0 \<le> W" "0 < N" using r(1) by simp_all
  show "shape out = [B, N, nat H, nat W]" by (rule r(2))
  show "wf out" using r(2,3) by (simp add: wf_def numel_def)
qed

lemma xy_fit:
  assumes fw: "xy_forward self (FloatT x) (H, W) cx cy = Inr out"
    and sx: "shape x = [B, M, E]"
    and sh: "d_shape cx = [B, M]" "d_shape cy = [B, M]" and wf: "d_wf cx" "d_wf cy"
  shows "int64 (H * W) \<or> B * E = 0" and "0 \<le> H" and "0 \<le> W" and "int64 W"
    and "shape out = [B, E, nat H, nat W]" and "wf out"
proof -
  have x: "x = Tensor [B, M, E] (data x)" using sx by (cases x) simp
  have fw': "xy_forward self (FloatT (Tensor [B, M, E] (data x))) (H, W) cx cy = Inr out"
    using fw x by simp
  note r = xy_result(1-3) [OF fw' sh wf]
  show HW: "0 \<le> H" "0 \<le> W" and "int64 W" using r(1) by simp_all
  show "shape out = [B, E, nat H, nat W]" by (rule r(2))
  show "wf out" using r(2,3) by (simp add: wf_def numel_def)
  show "int64 (H * W) \<or> B * E = 0"
  proof (cases "B * E = 0")
    case False
    then have "1 \<le> int B * int E"
      by (metis One_nat_def Suc_leI gr0I of_nat_1 of_nat_le_iff of_nat_mult)
    moreover have "0 \<le> H * W" using HW by simp
    ultimately have "1 * (H * W) \<le> (int B * int E) * (H * W)"
      by (intro mult_right_mono)
    then have "H * W \<le> int B * (int E * (H * W))" by (simp add: mult.assoc)
    then have "int64 (H * W)"
      using r(1) \<open>0 \<le> H * W\<close> by (auto intro: int64_between)
    then show ?thesis ..
  qed simp
qed

lemma forward_returns:
  assumes sx: "shape x = [B, M, N]" and sl: "shape loc = [B, M, 2]"
    and N: "0 < N" and HW: "0 \<le> H" "0 \<le> W" and fit: "fits_int64 B N H W"
    and grid: "\<forall>b<B. \<forall>m<M. in_grid H W (get loc [b, m, 0]) (get loc [b, m, 1])"
  shows "\<exists>out. forward self (FloatT x) (H, W) (LongT loc) = Inr out"
proof -
  have x: "x = Tensor [B, M, N] (data x)" using sx by (cases x) simp
  have loc: "loc = Tensor [B, M, 2] (data loc)" using sl by (cases loc) simp
  have f: "int64 W" "int64 (H * W)" "int64 (int N * (int B * H * W))" "int64 (int N)"
    "int64 (int B * H * W)"
    using fit by (simp_all add: fits_int64_def)
  have L: "int (B * (nat H * nat W)) = int B * (H * W)" using HW by simp
  have rng: "\<forall>j<B * M. 0 \<le> location_address H W M (data loc) j
                \<and> location_address H W M (data loc) j < int (B * (nat H * nat W))"
  proof (intro allI impI)
    fix j assume j: "j < B * M"
    note fe = flat_entity [OF j]
    have g: "in_grid H W (get loc [j div M, j mod M, 0]) (get loc [j div M, j mod M, 1])"
      using grid fe(1,2) by blast
    have a: "location_address H W M (data loc) j
           = forward_address H W (j div M) (get loc [j div M, j mod M, 0])
               (get loc [j div M, j mod M, 1])"
      using location_address_entity [OF fe(2), of H W "data loc" "j div M" B] fe(3) loc
      by simp
    have rc: "0 \<le> get loc [j div M, j mod M, 0]" "get loc [j div M, j mod M, 0] < H"
      "0 \<le> get loc [j div M, j mod M, 1]" "get loc [j div M, j mod M, 1] < W"
      using g by (simp_all add: in_grid_def)
    show "0 \<le> location_address H W M (data loc) j
          \<and> location_address H W M (data loc) j < int (B * (nat H * nat W))"
      unfolding a L
      using forward_address_in_range(2,3) [OF rc fe(1) f(5)] by simp
  qed
  have "\<exists>out. forward self (FloatT (Tensor [B, M, N] (data x))) (H, W)
                (LongT (Tensor [B, M, 2] (data loc))) = Inr out"
    using HW N f rng by (rule forward_succeeds)
  then show ?thesis using x loc by simp
qed

lemma xy_forward_returns:
  assumes sx: "shape x = [B, M, N]"
    and sh: "shape cx = [B, M]" "shape cy = [B, M]" and wf: "wf cx" "wf cy"
    and HW: "0 \<le> H" "0 \<le> W" and fit: "fits_int64 B N H W"
    and grid: "\<forall>b<B. \<forall>m<M. in_grid H W (get cx [b, m]) (get cy [b, m])"
  shows "\<exists>out. xy_forward self (FloatT x) (H, W) (LongT cx) (LongT cy) = Inr out"
proof -
  have x: "x = Tensor [B, M, N] (data x)" using sx by (cases x) simp
  have f: "int64 W" "int64 H" "int64 (int B * (int N * (H * W)))" "int64 (int B)" "int64 (int N)"
    and hw: "int64 (H * W)"
    using fit by (simp_all add: fits_int64_def algebra_simps)
  have L: "int (nat H * nat W) = H * W" using HW by simp
  have rng: "\<forall>k<B * M. 0 \<le> xy_index W (LongT cx) (LongT cy) k
                \<and> xy_index W (LongT cx) (LongT cy) k < int (nat H * nat W)"
  proof (intro allI impI)
    fix k assume k: "k < B * M"
    note fe = flat_entity [OF k]
    have g: "in_grid H W (get cx [k div M, k mod M]) (get cy [k div M, k mod M])"
      using grid fe(1,2) by blast
    have e: "get cx [k div M, k mod M] = data cx ! k" "get cy [k div M, k mod M] = data cy ! k"
      using fe(3) by (simp_all add: get_def sh)
    have rc: "0 \<le> data cx ! k" "data cx ! k < H" "0 \<le> data cy ! k" "data cy ! k < W"
      using g unfolding e by (simp_all add: in_grid_def)
    show "0 \<le> xy_index W (LongT cx) (LongT cy) k
          \<and> xy_index W (LongT cx) (LongT cy) k < int (nat H * nat W)"
      unfolding L using xy_address_in_range(2,3) [OF rc hw] by simp
  qed
  have "\<exists>out. xy_forward self (FloatT (Tensor [B, M, N] (data x))) (H, W) (LongT cx) (LongT cy)
          = Inr out"
    by (rule xy_succeeds) (use sh wf HW f rng in simp_all)
  then show ?thesis using x by simp
qed







lemma get_2d: "shape t = [B, M] \<Longrightarrow> get t [b, m] = data t ! (b * M + m)"
  by (simp add: get_def)

section \<open>Steps on the store\<close>

lemma preservesI:
  assumes "\<And>st res st'. n \<le> length st \<Longrightarrow> m st = (res, st') \<Longrightarrow>
             take n st' = take n st \<and> length st \<le> length st' \<and> (\<forall>a. res = Inr a \<longrightarrow> P a)"
  shows "preserves n P m"
  unfolding preserves_def
proof (intro allI impI)
  fix st :: store assume n: "n \<le> length st"
  obtain res st' where m: "m st = (res, st')" by (cases "m st")
  from assms [OF n m] show "case m st of (res, st') \<Rightarrow>
             take n st' = take n st \<and> length st \<le> length st'
             \<and> (case res of Inl e \<Rightarrow> True | Inr a \<Rightarrow> P a)"
    by (simp add: m split: sum.splits)
qed

lemma preservesD:
  assumes "preserves n P m" and "n \<le> length st" and "m st = (res, st')"
  shows "take n st' = take n st" and "length st \<le> length st'" and "res = Inr a \<Longrightarrow> P a"
  using assms unfolding preserves_def by (auto split: prod.splits sum.splits)

lemma preserves_bind:
  assumes m: "preserves n P m" and f: "\<And>a. P a \<Longrightarrow> preserves n Q (f a)"
  shows "preserves n Q (bind_st m f)"
proof (rule preservesI)
  fix st :: store and res st' assume n: "n \<le> length st" and b: "bind_st m f st = (res, st')"
  obtain r1 s1 where m1: "m st = (r1, s1)" by (cases "m st")
  note d = preservesD [OF m n m1]
  show "take n st' = take n st \<and> length st \<le> length st' \<and> (\<forall>a. res = Inr a \<longrightarrow> Q a)"
  proof (cases r1)
    case (Inl e)
    with b m1 have "res = Inl e" "st' = s1" by (simp_all add: bind_st_def)
    with d(1,2) show ?thesis by simp
  next
    case (Inr a)
    with b m1 have fa: "f a s1 = (res, st')" by (simp add: bind_st_def)
    have n1: "n \<le> length s1" using n d(2) by simp
    note e = preservesD [OF f [OF d(3) [OF Inr]] n1 fa]
    show ?thesis using d(1,2) e by auto
  qed
qed

lemma preserves_lift: "preserves n (\<lambda>a. v = Inr a) (lift_st v)"
  by (rule preservesI) (simp add: lift_st_def)

lemma preserves_lift_any: "preserves n (\<lambda>a. True) (lift_st v)"
  by (rule preservesI) (simp add: lift_st_def)

lemma preserves_new: "preserves n (\<lambda>r. n \<le> sid r) (new_st f)"
  by (rule preservesI) (auto simp: new_st_def alloc_def split: sum.splits)

lemma write_atD: "write_at st r t = Inr st' \<Longrightarrow> \<exists>b. st' = st[sid r := b]"
  by (cases "st ! sid r"; cases t) (auto simp: write_at_def)

lemma preserves_inplace:
  assumes "n \<le> sid r"
  shows "preserves n (\<lambda>a. True) (inplace_st r f)"
proof (rule preservesI)
  fix st :: store and res st' assume n: "n \<le> length st" and b: "inplace_st r f st = (res, st')"
  show "take n st' = take n st \<and> length st \<le> length st' \<and> (\<forall>a. res = Inr a \<longrightarrow> True)"
  proof (cases "thn (f st) (write_at st r)")
    case (Inl e)
    with b show ?thesis by (simp add: inplace_st_def)
  next
    case (Inr s1)
    with b have "st' = s1" by (simp add: inplace_st_def)
    moreover from Inr obtain t where "write_at st r t = Inr s1" by (auto simp: thn_eq_Inr)
    then obtain c where "s1 = st[sid r := c]" by (auto dest: write_atD)
    ultimately show ?thesis using assms by simp
  qed
qed

lemma preserves_if:
  "preserves n P a \<Longrightarrow> preserves n P b \<Longrightarrow> preserves n P (if c then a else b)"
  by simp

lemma view_refD: "view_ref r d = Inr r' \<Longrightarrow> sid r' = sid r"
  by (cases "view (positions r) d") (auto simp: view_ref_def as_ref_def)

lemma permute_refD: "permute_ref r d = Inr r' \<Longrightarrow> sid r' = sid r"
  by (cases "permute (positions r) d") (auto simp: permute_ref_def as_ref_def)

lemma unsqueeze_refD: "unsqueeze_ref r d = Inr r' \<Longrightarrow> sid r' = sid r"
  by (cases "unsqueeze (positions r) d") (auto simp: unsqueeze_ref_def as_ref_def)

lemma select_col_refD: "select_col_ref r d = Inr r' \<Longrightarrow> sid r' = sid r"
  by (cases "select_col (positions r) d") (auto simp: select_col_ref_def as_ref_def)

lemma preserves_weaken:
  "preserves n P m \<Longrightarrow> (\<And>a. P a \<Longrightarrow> Q a) \<Longrightarrow> preserves n Q m"
  by (rule preservesI) (auto dest: preservesD)

lemma preserves_contiguous:
  assumes "n \<le> sid r"
  shows "preserves n (\<lambda>r. n \<le> sid r) (contiguous_st r)"
  unfolding contiguous_st_def
  by (rule preserves_if, rule preserves_weaken [OF preserves_lift], simp add: assms,
      rule preserves_new)

lemma preserves_long:
  assumes "n \<le> sid r"
  shows "preserves n (\<lambda>r. n \<le> sid r) (long_st r)"
proof (rule preservesI)
  fix st :: store and res st' assume n: "n \<le> length st" and b: "long_st r st = (res, st')"
  show "take n st' = take n st \<and> length st \<le> length st' \<and> (\<forall>a. res = Inr a \<longrightarrow> n \<le> sid a)"
  proof (cases "deref st r")
    case (LongT t)
    with b assms show ?thesis by (auto simp: long_st_def)
  next
    case (FloatT t)
    with b have "new_st (\<lambda>_. Inr (LongT (long (FloatT t)))) st = (res, st')"
      by (simp add: long_st_def)
    from preservesD [OF preserves_new n this] show ?thesis by auto
  qed
qed

lemma xy_forward_st_preserves:
  "preserves n (\<lambda>out. n \<le> sid out) (xy_forward_st self x sz cx cy)"
proof (cases "\<exists>B M N. rshape x = [B, M, N]")
  case False
  then have "xy_forward_st self x sz cx cy = lift_st (Inl ValueError)"
    by (auto simp: xy_forward_st_def split: list.splits)
  then show ?thesis
    using preserves_weaken [OF preserves_lift [of n "Inl ValueError"]] by simp
next
  case True
  then obtain B M N where s: "rshape x = [B, M, N]" by auto
  obtain H W where z: "sz = (H, W)" by (cases sz)
  show ?thesis
    unfolding xy_forward_st_def s z list.case prod.case
    apply (rule preserves_bind, rule preserves_lift)
    apply (rule preserves_bind, rule preserves_new)
    apply (rule preserves_bind, rule preserves_new)
    apply (rule preserves_bind, erule preserves_long)
    apply (rule preserves_bind, rule preserves_lift)
    apply (rule preserves_bind, rule preserves_new)
    apply (rule preserves_bind, rule preserves_new)
    apply (rule preserves_bind, rule preserves_lift)
    apply (rule preserves_bind [where P = "\<lambda>_. True"])
     apply (intro preserves_if preserves_inplace preserves_lift_any)
      apply (simp_all add: view_refD) [2]
    apply (rule preserves_weaken [OF preserves_lift])
    apply (simp add: view_refD)
    done
qed

lemma forward_st_preserves:
  "preserves n (\<lambda>out. n \<le> sid out) (forward_st self x sz loc)"
proof (cases "\<exists>B M N. rshape x = [B, M, N]")
  case False
  then have "forward_st self x sz loc = lift_st (Inl ValueError)"
    by (auto simp: forward_st_def split: list.splits)
  then show ?thesis
    using preserves_weaken [OF preserves_lift [of n "Inl ValueError"]] by simp
next
  case True
  then obtain B M N where s: "rshape x = [B, M, N]" by auto
  obtain H W where z: "sz = (H, W)" by (cases sz)
  show ?thesis
    unfolding forward_st_def s z list.case prod.case
    apply (rule preserves_bind, rule preserves_lift)
    apply (rule preserves_bind, rule preserves_new)
    apply (rule preserves_bind, erule preserves_inplace)
    apply (rule preserves_bind, rule preserves_lift)
    apply (rule preserves_bind, rule preserves_new)
    apply (rule preserves_bind, rule preserves_lift)
    apply (rule preserves_bind, rule preserves_lift)
    apply (rule preserves_bind, rule preserves_new)
    apply (rule preserves_bind, rule preserves_lift)
    apply (rule preserves_bind, rule preserves_new)
    apply (rule preserves_bind, erule preserves_inplace)
    apply (rule preserves_bind, rule preserves_new)
    apply (rule preserves_bind, rule preserves_lift)
    apply (rule preserves_bind, rule preserves_lift)
    apply (rule preserves_bind, rule preserves_new)
    apply (rule preserves_bind [where P = "\<lambda>_. True"])
     apply (intro preserves_if preserves_inplace preserves_lift_any)
      apply simp_all [2]
    apply (rule preserves_bind, rule preserves_lift)
    apply (rule preserves_bind, rule preserves_lift)
    apply (rule preserves_contiguous)
    apply (simp add: view_refD permute_refD)
    done
qed

lemma deref_take:
  assumes "take n st' = st" and "n = length st" and "sid r < length st"
  shows "deref st' r = deref st r"
proof -
  have "take n st' ! sid r = st' ! sid r"
    by (rule nth_take) (simp add: assms)
  then have "st' ! sid r = st ! sid r" by (simp add: assms(1))
  then show ?thesis by (simp add: deref_def)
qed

lemma forward_st_frame:
  assumes "forward_st self x sz loc st = (res, st')"
  shows "take (length st) st' = st" and "length st \<le> length st'"
    and "sid r < length st \<Longrightarrow> deref st' r = deref st r"
    and "res = Inr out \<Longrightarrow> length st \<le> sid out"
proof -
  note d = preservesD [OF forward_st_preserves [of "length st"] order_refl assms]
  show t: "take (length st) st' = st" using d(1) by simp
  show "length st \<le> length st'" by (rule d(2))
  show "sid r < length st \<Longrightarrow> deref st' r = deref st r" by (rule deref_take [OF t refl])
  show "res = Inr out \<Longrightarrow> length st \<le> sid out" by (rule d(3))
qed

lemma xy_forward_st_frame:
  assumes "xy_forward_st self x sz cx cy st = (res, st')"
  shows "take (length st) st' = st" and "length st \<le> length st'"
    and "sid r < length st \<Longrightarrow> deref st' r = deref st r"
    and "res = Inr out \<Longrightarrow> length st \<le> sid out"
proof -
  note d = preservesD [OF xy_forward_st_preserves [of "length st"] order_refl assms]
  show t: "take (length st) st' = st" using d(1) by simp
  show "length st \<le> length st'" by (rule d(2))
  show "sid r < length st \<Longrightarrow> deref st' r = deref st r" by (rule deref_take [OF t refl])
  show "res = Inr out \<Longrightarrow> length st \<le> sid out" by (rule d(3))
qed

section \<open>The constructor\<close>

text \<open>
  Claim C9.  Constructing a scatter connection with a scatter type other than
  \<^verbatim>\<open>'cover'\<close> and \<^verbatim>\<open>'add'\<close> fails, with the \<open>AssertionError\<close> of the
  constructor's \<^verbatim>\<open>assert\<close>; with either of the two values the construction
  succeeds and the instance carries exactly that scatter type.
\<close>

theorem init_validates_scatter_type:
  "init st = (if st = ''cover'' \<or> st = ''add''
              then Inr \<lparr>scatter_type = st\<rparr> else Inl AssertionError)"
  by (simp add: init_def)

section \<open>The axis conventions of the two entry points\<close>

text \<open>
  Claim C1.  With \<open>B = 1\<close>, \<open>M = 1\<close>, \<open>H = W = 4\<close>, \<open>N = 2\<close> and the feature vector
  \<open>[1, 2]\<close>, \<open>forward\<close> with the location \<open>(1, 2)\<close> writes the vector to the cell
  \<open>[0, :, 1, 2]\<close> (linear index 6) and \<open>xy_forward\<close> with \<open>coord_x = 2\<close>,
  \<open>coord_y = 1\<close> writes it to the cell \<open>[0, :, 2, 1]\<close> (linear index 9); every
  other cell is zero, so the two outputs differ.  This holds under both scatter
  types.
\<close>

theorem axis_convention_scenario:
  "(let F = Tensor [1, 2, 4, 4]
              [0, 0, 0, 0, 0, 0, 1, 0, 0, 0, 0, 0, 0, 0, 0, 0,
               0, 0, 0, 0, 0, 0, 2, 0, 0, 0, 0, 0, 0, 0, 0, 0];
        G = Tensor [1, 2, 4, 4]
              [0, 0, 0, 0, 0, 0, 0, 0, 0, 1, 0, 0, 0, 0, 0, 0,
               0, 0, 0, 0, 0, 0, 0, 0, 0, 2, 0, 0, 0, 0, 0, 0];
        x = FloatT (Tensor [1, 1, 2] [1, 2])
    in forward \<lparr>scatter_type = ''cover''\<rparr> x (4, 4) (LongT (Tensor [1, 1, 2] [1, 2])) = Inr F
     \<and> forward \<lparr>scatter_type = ''add''\<rparr> x (4, 4) (LongT (Tensor [1, 1, 2] [1, 2])) = Inr F
     \<and> xy_forward \<lparr>scatter_type = ''cover''\<rparr> x (4, 4)
          (LongT (Tensor [1, 1] [2])) (LongT (Tensor [1, 1] [1])) = Inr G
     \<and> xy_forward \<lparr>scatter_type = ''add''\<rparr> x (4, 4)
          (LongT (Tensor [1, 1] [2])) (LongT (Tensor [1, 1] [1])) = Inr G
     \<and> get F [0, 0, 1, 2] = 1 \<and> get F [0, 1, 1, 2] = 2
     \<and> ravel [4, 4] [1, 2] = 6
     \<and> get G [0, 0, 2, 1] = 1 \<and> get G [0, 1, 2, 1] = 2
     \<and> ravel [4, 4] [2, 1] = 9
     \<and> get F [0, 0, 2, 1] = 0 \<and> get G [0, 0, 1, 2] = 0
     \<and> F \<noteq> G)"
  by code_simp

section \<open>Cells no entity is written to\<close>

text \<open>
  Claim C7.  Under either scatter type, an output cell that no entity is written to
  is zero in every channel.  For \<open>forward\<close> the entities of all batch elements count,
  since the addresses of all of them lie in one flat buffer; for \<open>xy_forward\<close> only
  the entities of the cell's own batch element can reach it.  For coordinates inside
  the grid, being written to the cell is having the cell's row and column as
  coordinates (\<open>forward_targets_in_grid\<close>, \<open>xy_targets_in_grid\<close>).
\<close>

theorem zero_fill:
  assumes "shape x = [B, M, N]" "b < B" "n < N" "r < nat H" "c < nat W"
  shows "(forward self (FloatT x) (H, W) (LongT loc) = Inr out \<and> shape loc = [B, M, 2]
            \<and> (\<forall>b'<B. \<forall>m<M. \<not> forward_targets H W loc b' m b r c)
          \<longrightarrow> get out [b, n, r, c] = 0)
       \<and> (xy_forward self (FloatT x) (H, W) cx cy = Inr out'
            \<and> d_shape cx = [B, M] \<and> d_shape cy = [B, M] \<and> d_wf cx \<and> d_wf cy
            \<and> (\<forall>m<M. \<not> xy_targets W cx cy b m r c)
          \<longrightarrow> get out' [b, n, r, c] = 0)"
proof (intro conjI impI)
  assume a: "forward self (FloatT x) (H, W) (LongT loc) = Inr out \<and> shape loc = [B, M, 2]
            \<and> (\<forall>b'<B. \<forall>m<M. \<not> forward_targets H W loc b' m b r c)"
  then have fw: "forward self (FloatT x) (H, W) (LongT loc) = Inr out"
    and sl: "shape loc = [B, M, 2]"
    and none: "\<And>b' m. b' < B \<Longrightarrow> m < M \<Longrightarrow> \<not> forward_targets H W loc b' m b r c"
    by blast+
  have "get out [b, n, r, c]
      = fold (\<lambda>j acc. if forward_targets H W loc (j div M) (j mod M) b r c
                        then write_policy (scatter_type self) acc (get x [j div M, j mod M, n])
                        else acc) [0..<B * M] 0"
    using fw assms(1) sl assms(2-) by (rule forward_cell)
  also have "\<dots> = 0"
  proof (rule fold_if_skip)
    fix j assume "j \<in> set [0..<B * M]"
    then have "j < B * M" by simp
    then show "\<not> forward_targets H W loc (j div M) (j mod M) b r c"
      by (intro none flat_entity)
  qed
  finally show "get out [b, n, r, c] = 0" .
next
  assume a: "xy_forward self (FloatT x) (H, W) cx cy = Inr out'
            \<and> d_shape cx = [B, M] \<and> d_shape cy = [B, M] \<and> d_wf cx \<and> d_wf cy
            \<and> (\<forall>m<M. \<not> xy_targets W cx cy b m r c)"
  then have fw: "xy_forward self (FloatT x) (H, W) cx cy = Inr out'"
    and sh: "d_shape cx = [B, M]" "d_shape cy = [B, M]" and wf: "d_wf cx" "d_wf cy"
    and none: "\<And>m. m < M \<Longrightarrow> \<not> xy_targets W cx cy b m r c"
    by blast+
  have "get out' [b, n, r, c]
      = fold (\<lambda>m acc. if xy_targets W cx cy b m r c
                        then write_policy (scatter_type self) acc (get x [b, m, n])
                        else acc) [0..<M] 0"
    using fw assms(1) sh wf assms(2-) by (rule xy_cell)
  also have "\<dots> = 0"
    by (rule fold_if_skip) (use none in simp)
  finally show "get out' [b, n, r, c] = 0" .
qed

theorem zero_fill_witness:
  "forward \<lparr>scatter_type = ''add''\<rparr> (FloatT (Tensor [1, 2, 1] [5, 7])) (2, 2)
       (LongT (Tensor [1, 2, 2] [0, 1, 1, 0]))
     = Inr (Tensor [1, 1, 2, 2] [0, 5, 7, 0])
   \<and> get (Tensor [1, 1, 2, 2] [0, 5, 7, 0 :: real]) [0, 0, 1, 1] = 0
   \<and> xy_forward \<lparr>scatter_type = ''add''\<rparr> (FloatT (Tensor [1, 2, 1] [5, 7])) (2, 2)
       (LongT (Tensor [1, 2] [0, 1])) (LongT (Tensor [1, 2] [1, 0]))
     = Inr (Tensor [1, 1, 2, 2] [0, 5, 7, 0])
   \<and> get (Tensor [1, 1, 2, 2] [0, 5, 7, 0 :: real]) [0, 0, 0, 0] = 0"
proof -
  let ?x = "Tensor [1, 2, 1] [5, 7 :: real]"
  let ?loc = "Tensor [1, 2, 2] [0, 1, 1, 0 :: int]"
  let ?out = "Tensor [1, 1, 2, 2] [0, 5, 7, 0 :: real]"
  let ?cx = "LongT (Tensor [1, 2] [0, 1])" and ?cy = "LongT (Tensor [1, 2] [1, 0])"
  have f: "forward \<lparr>scatter_type = ''add''\<rparr> (FloatT ?x) (2, 2) (LongT ?loc) = Inr ?out"
    by code_simp
  have g: "xy_forward \<lparr>scatter_type = ''add''\<rparr> (FloatT ?x) (2, 2) ?cx ?cy = Inr ?out"
    by code_simp
  have none: "\<forall>b'<1. \<forall>m<2. \<not> forward_targets 2 2 ?loc b' m 0 1 1"
    by (auto simp: less_Suc_eq numeral_2_eq_2 forward_targets_def forward_address_def
        wrap64_def get_def)
  have none': "\<forall>m<2. \<not> xy_targets 2 ?cx ?cy 0 m 0 0"
    by (auto simp: less_Suc_eq numeral_2_eq_2 xy_targets_def xy_address_def wrap64_def)
  have p: "forward \<lparr>scatter_type = ''add''\<rparr> (FloatT ?x) (2, 2) (LongT ?loc) = Inr ?out
           \<and> shape ?loc = [1, 2, 2] \<and> (\<forall>b'<1. \<forall>m<2. \<not> forward_targets 2 2 ?loc b' m 0 1 1)"
    using f none by simp
  have s: "shape ?x = [1, 2, 1]" by simp
  have b: "(0::nat) < 1" "(1::nat) < nat 2" by simp_all
  have z: "get ?out [0, 0, 1, 1] = 0"
    by (rule zero_fill [where cx = ?cx and cy = ?cy and out' = ?out, THEN conjunct1, THEN mp,
          OF s b(1) b(1) b(2) b(2) p])
  have p': "xy_forward \<lparr>scatter_type = ''add''\<rparr> (FloatT ?x) (2, 2) ?cx ?cy = Inr ?out
           \<and> d_shape ?cx = [1, 2] \<and> d_shape ?cy = [1, 2] \<and> d_wf ?cx \<and> d_wf ?cy
           \<and> (\<forall>m<2. \<not> xy_targets 2 ?cx ?cy 0 m 0 0)"
    using g none' by (simp add: wf_def numel_def)
  have b': "(0::nat) < nat 2" by simp
  have z': "get ?out [0, 0, 0, 0] = 0"
    by (rule zero_fill [where loc = ?loc and out = ?out, THEN conjunct2, THEN mp,
          OF s b(1) b(1) b' b' p'])
  show ?thesis using f g z z' by (intro conjI)
qed

section \<open>Overwrite: the last entity wins\<close>



section \<open>Accumulate: colliding entities are summed\<close>



section \<open>Batch elements do not interfere\<close>

text \<open>
  Claim C4.  Two runs whose inputs agree on every batch element other than \<open>b0\<close>
  agree on every cell of the output slice of every batch element \<open>b \<noteq> b0\<close>.  For
  \<open>forward\<close>, which writes all batch elements into one flat buffer, this needs the
  coordinates of both runs inside the grid; for \<open>xy_forward\<close>, which scatters within
  each batch element's own slice, it holds for all coordinates the call accepts.
\<close>

theorem no_cross_batch_bleed:
  assumes "shape x1 = [B, M, N]" "shape x2 = [B, M, N]"
    "b0 < B" "b < B" "b \<noteq> b0" "n < N" "r < nat H" "c < nat W"
  shows "(forward self (FloatT x1) (H, W) (LongT loc1) = Inr out1
            \<and> forward self (FloatT x2) (H, W) (LongT loc2) = Inr out2
            \<and> shape loc1 = [B, M, 2] \<and> shape loc2 = [B, M, 2]
            \<and> (\<forall>b'<B. \<forall>m<M. in_grid H W (get loc1 [b', m, 0]) (get loc1 [b', m, 1])
                          \<and> in_grid H W (get loc2 [b', m, 0]) (get loc2 [b', m, 1]))
            \<and> (\<forall>b'<B. b' \<noteq> b0 \<longrightarrow>
                  (\<forall>m<M. get loc1 [b', m, 0] = get loc2 [b', m, 0]
                        \<and> get loc1 [b', m, 1] = get loc2 [b', m, 1]
                        \<and> (\<forall>n<N. get x1 [b', m, n] = get x2 [b', m, n])))
          \<longrightarrow> get out1 [b, n, r, c] = get out2 [b, n, r, c])
       \<and> (xy_forward self (FloatT x1) (H, W) (LongT cx1) (LongT cy1) = Inr out1'
            \<and> xy_forward self (FloatT x2) (H, W) (LongT cx2) (LongT cy2) = Inr out2'
            \<and> shape cx1 = [B, M] \<and> shape cy1 = [B, M] \<and> wf cx1 \<and> wf cy1
            \<and> shape cx2 = [B, M] \<and> shape cy2 = [B, M] \<and> wf cx2 \<and> wf cy2
            \<and> (\<forall>b'<B. b' \<noteq> b0 \<longrightarrow>
                  (\<forall>m<M. get cx1 [b', m] = get cx2 [b', m]
                        \<and> get cy1 [b', m] = get cy2 [b', m]
                        \<and> (\<forall>n<N. get x1 [b', m, n] = get x2 [b', m, n])))
          \<longrightarrow> get out1' [b, n, r, c] = get out2' [b, n, r, c])"
proof (intro conjI impI)
  assume a: "forward self (FloatT x1) (H, W) (LongT loc1) = Inr out1
            \<and> forward self (FloatT x2) (H, W) (LongT loc2) = Inr out2
            \<and> shape loc1 = [B, M, 2] \<and> shape loc2 = [B, M, 2]
            \<and> (\<forall>b'<B. \<forall>m<M. in_grid H W (get loc1 [b', m, 0]) (get loc1 [b', m, 1])
                          \<and> in_grid H W (get loc2 [b', m, 0]) (get loc2 [b', m, 1]))
            \<and> (\<forall>b'<B. b' \<noteq> b0 \<longrightarrow>
                  (\<forall>m<M. get loc1 [b', m, 0] = get loc2 [b', m, 0]
                        \<and> get loc1 [b', m, 1] = get loc2 [b', m, 1]
                        \<and> (\<forall>n<N. get x1 [b', m, n] = get x2 [b', m, n])))"
  then have fw1: "forward self (FloatT x1) (H, W) (LongT loc1) = Inr out1"
    and fw2: "forward self (FloatT x2) (H, W) (LongT loc2) = Inr out2"
    and sl: "shape loc1 = [B, M, 2]" "shape loc2 = [B, M, 2]"
    and g1: "\<And>b' m. b' < B \<Longrightarrow> m < M \<Longrightarrow> in_grid H W (get loc1 [b', m, 0]) (get loc1 [b', m, 1])"
    and g2: "\<And>b' m. b' < B \<Longrightarrow> m < M \<Longrightarrow> in_grid H W (get loc2 [b', m, 0]) (get loc2 [b', m, 1])"
    and same: "\<And>m. m < M \<Longrightarrow> get loc1 [b, m, 0] = get loc2 [b, m, 0]
                        \<and> get loc1 [b, m, 1] = get loc2 [b, m, 1]
                        \<and> get x1 [b, m, n] = get x2 [b, m, n]"
    using assms(4,5,6) by blast+
  have fit: "int64 (int B * H * W)" using fw1 assms(1) sl(1) by (rule forward_fit(1))
  have "get out1 [b, n, r, c]
      = fold (\<lambda>j acc. if forward_targets H W loc1 (j div M) (j mod M) b r c
                        then write_policy (scatter_type self) acc (get x1 [j div M, j mod M, n])
                        else acc) [0..<B * M] 0"
    using fw1 assms(1) sl(1) assms(4,6,7,8) by (rule forward_cell)
  also have "\<dots> = fold (\<lambda>j acc. if forward_targets H W loc2 (j div M) (j mod M) b r c
                        then write_policy (scatter_type self) acc (get x2 [j div M, j mod M, n])
                        else acc) [0..<B * M] 0"
  proof (rule fold_cong [OF refl refl])
    fix j assume "j \<in> set [0..<B * M]"
    then have j: "j < B * M" by simp
    note fe = flat_entity [OF j]
    have t1: "forward_targets H W loc1 (j div M) (j mod M) b r c
        \<longleftrightarrow> j div M = b \<and> get loc1 [j div M, j mod M, 0] = int r
            \<and> get loc1 [j div M, j mod M, 1] = int c"
      using g1 [OF fe(1,2)] fe(1) fit assms(7,8) by (rule forward_targets_in_grid)
    have t2: "forward_targets H W loc2 (j div M) (j mod M) b r c
        \<longleftrightarrow> j div M = b \<and> get loc2 [j div M, j mod M, 0] = int r
            \<and> get loc2 [j div M, j mod M, 1] = int c"
      using g2 [OF fe(1,2)] fe(1) fit assms(7,8) by (rule forward_targets_in_grid)
    show "(\<lambda>acc. if forward_targets H W loc1 (j div M) (j mod M) b r c
                  then write_policy (scatter_type self) acc (get x1 [j div M, j mod M, n])
                  else acc)
        = (\<lambda>acc. if forward_targets H W loc2 (j div M) (j mod M) b r c
                  then write_policy (scatter_type self) acc (get x2 [j div M, j mod M, n])
                  else acc)"
    proof (cases "j div M = b")
      case True
      have l: "get loc1 [j div M, j mod M, 0] = get loc2 [j div M, j mod M, 0]"
        "get loc1 [j div M, j mod M, 1] = get loc2 [j div M, j mod M, 1]"
        and v: "get x1 [j div M, j mod M, n] = get x2 [j div M, j mod M, n]"
        using same [OF fe(2)] True by simp_all
      show ?thesis unfolding t1 t2 l v ..
    next
      case False
      have f1: "\<not> forward_targets H W loc1 (j div M) (j mod M) b r c"
        unfolding t1 using False by simp
      have f2: "\<not> forward_targets H W loc2 (j div M) (j mod M) b r c"
        unfolding t2 using False by simp
      show ?thesis by (simp only: f1 f2 if_False)
    qed
  qed
  also have "\<dots> = get out2 [b, n, r, c]"
    using forward_cell [OF fw2 assms(2) sl(2) assms(4,6,7,8)] by simp
  finally show "get out1 [b, n, r, c] = get out2 [b, n, r, c]" .
next
  assume a: "xy_forward self (FloatT x1) (H, W) (LongT cx1) (LongT cy1) = Inr out1'
            \<and> xy_forward self (FloatT x2) (H, W) (LongT cx2) (LongT cy2) = Inr out2'
            \<and> shape cx1 = [B, M] \<and> shape cy1 = [B, M] \<and> wf cx1 \<and> wf cy1
            \<and> shape cx2 = [B, M] \<and> shape cy2 = [B, M] \<and> wf cx2 \<and> wf cy2
            \<and> (\<forall>b'<B. b' \<noteq> b0 \<longrightarrow>
                  (\<forall>m<M. get cx1 [b', m] = get cx2 [b', m]
                        \<and> get cy1 [b', m] = get cy2 [b', m]
                        \<and> (\<forall>n<N. get x1 [b', m, n] = get x2 [b', m, n])))"
  then have fw1: "xy_forward self (FloatT x1) (H, W) (LongT cx1) (LongT cy1) = Inr out1'"
    and fw2: "xy_forward self (FloatT x2) (H, W) (LongT cx2) (LongT cy2) = Inr out2'"
    and s1: "d_shape (LongT cx1) = [B, M]" "d_shape (LongT cy1) = [B, M]"
    and w1: "d_wf (LongT cx1)" "d_wf (LongT cy1)"
    and s2: "d_shape (LongT cx2) = [B, M]" "d_shape (LongT cy2) = [B, M]"
    and w2: "d_wf (LongT cx2)" "d_wf (LongT cy2)"
    and same: "\<And>m. m < M \<Longrightarrow> get cx1 [b, m] = get cx2 [b, m]
                        \<and> get cy1 [b, m] = get cy2 [b, m]
                        \<and> get x1 [b, m, n] = get x2 [b, m, n]"
    using assms(4,5,6) by simp_all
  have "get out1' [b, n, r, c]
      = fold (\<lambda>m acc. if xy_targets W (LongT cx1) (LongT cy1) b m r c
                        then write_policy (scatter_type self) acc (get x1 [b, m, n])
                        else acc) [0..<M] 0"
    using fw1 assms(1) s1 w1 assms(4,6,7,8) by (rule xy_cell)
  also have "\<dots> = fold (\<lambda>m acc. if xy_targets W (LongT cx2) (LongT cy2) b m r c
                        then write_policy (scatter_type self) acc (get x2 [b, m, n])
                        else acc) [0..<M] 0"
  proof (rule fold_cong [OF refl refl])
    fix m assume "m \<in> set [0..<M]"
    then have m: "m < M" by simp
    have t: "xy_targets W (LongT cx1) (LongT cy1) b m r c
           \<longleftrightarrow> xy_targets W (LongT cx2) (LongT cy2) b m r c"
      using same [OF m] s1 s2 by (simp add: xy_targets_def get_def)
    show "(\<lambda>acc. if xy_targets W (LongT cx1) (LongT cy1) b m r c
                  then write_policy (scatter_type self) acc (get x1 [b, m, n]) else acc)
        = (\<lambda>acc. if xy_targets W (LongT cx2) (LongT cy2) b m r c
                  then write_policy (scatter_type self) acc (get x2 [b, m, n]) else acc)"
    proof -
      have v: "get x1 [b, m, n] = get x2 [b, m, n]" using same [OF m] by simp
      show ?thesis unfolding t v ..
    qed
  qed
  also have "\<dots> = get out2' [b, n, r, c]"
    using xy_cell [OF fw2 assms(2) s2 w2 assms(4,6,7,8)] by simp
  finally show "get out1' [b, n, r, c] = get out2' [b, n, r, c]" .
qed


theorem no_cross_batch_bleed_witness:
  "forward \<lparr>scatter_type = ''cover''\<rparr> (FloatT (Tensor [2, 1, 1] [5, 7])) (2, 2)
       (LongT (Tensor [2, 1, 2] [0, 1, 1, 0]))
     = Inr (Tensor [2, 1, 2, 2] [0, 5, 0, 0, 0, 0, 7, 0])
   \<and> forward \<lparr>scatter_type = ''cover''\<rparr> (FloatT (Tensor [2, 1, 1] [9, 7])) (2, 2)
       (LongT (Tensor [2, 1, 2] [1, 1, 1, 0]))
     = Inr (Tensor [2, 1, 2, 2] [0, 0, 0, 9, 0, 0, 7, 0])
   \<and> get (Tensor [2, 1, 2, 2] [0, 5, 0, 0, 0, 0, 7, 0 :: real]) [1, 0, 1, 0]
       = get (Tensor [2, 1, 2, 2] [0, 0, 0, 9, 0, 0, 7, 0 :: real]) [1, 0, 1, 0]
   \<and> xy_forward \<lparr>scatter_type = ''cover''\<rparr> (FloatT (Tensor [2, 1, 1] [5, 7])) (2, 2)
       (LongT (Tensor [2, 1] [0, 1])) (LongT (Tensor [2, 1] [1, 0]))
     = Inr (Tensor [2, 1, 2, 2] [0, 5, 0, 0, 0, 0, 7, 0])
   \<and> xy_forward \<lparr>scatter_type = ''cover''\<rparr> (FloatT (Tensor [2, 1, 1] [9, 7])) (2, 2)
       (LongT (Tensor [2, 1] [1, 1])) (LongT (Tensor [2, 1] [1, 0]))
     = Inr (Tensor [2, 1, 2, 2] [0, 0, 0, 9, 0, 0, 7, 0])"
proof -
  let ?self = "\<lparr>scatter_type = ''cover''\<rparr>"
  let ?x1 = "Tensor [2, 1, 1] [5, 7 :: real]" and ?x2 = "Tensor [2, 1, 1] [9, 7 :: real]"
  let ?l1 = "Tensor [2, 1, 2] [0, 1, 1, 0 :: int]" and ?l2 = "Tensor [2, 1, 2] [1, 1, 1, 0 :: int]"
  let ?o1 = "Tensor [2, 1, 2, 2] [0, 5, 0, 0, 0, 0, 7, 0 :: real]"
  let ?o2 = "Tensor [2, 1, 2, 2] [0, 0, 0, 9, 0, 0, 7, 0 :: real]"
  let ?cx1 = "Tensor [2, 1] [0, 1 :: int]" and ?cy1 = "Tensor [2, 1] [1, 0 :: int]"
  let ?cx2 = "Tensor [2, 1] [1, 1 :: int]" and ?cy2 = "Tensor [2, 1] [1, 0 :: int]"
  have f1: "forward ?self (FloatT ?x1) (2, 2) (LongT ?l1) = Inr ?o1" by code_simp
  have f2: "forward ?self (FloatT ?x2) (2, 2) (LongT ?l2) = Inr ?o2" by code_simp
  have g1: "xy_forward ?self (FloatT ?x1) (2, 2) (LongT ?cx1) (LongT ?cy1) = Inr ?o1" by code_simp
  have g2: "xy_forward ?self (FloatT ?x2) (2, 2) (LongT ?cx2) (LongT ?cy2) = Inr ?o2" by code_simp
  have grid: "\<forall>b'<2. \<forall>m<1. in_grid 2 2 (get ?l1 [b', m, 0]) (get ?l1 [b', m, 1])
                          \<and> in_grid 2 2 (get ?l2 [b', m, 0]) (get ?l2 [b', m, 1])"
    by (auto simp: less_Suc_eq numeral_2_eq_2 in_grid_def get_def)
  have same: "\<forall>b'<2. b' \<noteq> 0 \<longrightarrow>
                  (\<forall>m<1. get ?l1 [b', m, 0] = get ?l2 [b', m, 0]
                        \<and> get ?l1 [b', m, 1] = get ?l2 [b', m, 1]
                        \<and> (\<forall>n<1. get ?x1 [b', m, n] = get ?x2 [b', m, n]))"
    by (auto simp: less_Suc_eq numeral_2_eq_2 get_def)
  have same': "\<forall>b'<2. b' \<noteq> 0 \<longrightarrow>
                  (\<forall>m<1. get ?cx1 [b', m] = get ?cx2 [b', m]
                        \<and> get ?cy1 [b', m] = get ?cy2 [b', m]
                        \<and> (\<forall>n<1. get ?x1 [b', m, n] = get ?x2 [b', m, n]))"
    by (auto simp: less_Suc_eq numeral_2_eq_2 get_def)
  have p: "forward ?self (FloatT ?x1) (2, 2) (LongT ?l1) = Inr ?o1
            \<and> forward ?self (FloatT ?x2) (2, 2) (LongT ?l2) = Inr ?o2
            \<and> shape ?l1 = [2, 1, 2] \<and> shape ?l2 = [2, 1, 2]
            \<and> (\<forall>b'<2. \<forall>m<1. in_grid 2 2 (get ?l1 [b', m, 0]) (get ?l1 [b', m, 1])
                          \<and> in_grid 2 2 (get ?l2 [b', m, 0]) (get ?l2 [b', m, 1]))
            \<and> (\<forall>b'<2. b' \<noteq> 0 \<longrightarrow>
                  (\<forall>m<1. get ?l1 [b', m, 0] = get ?l2 [b', m, 0]
                        \<and> get ?l1 [b', m, 1] = get ?l2 [b', m, 1]
                        \<and> (\<forall>n<1. get ?x1 [b', m, n] = get ?x2 [b', m, n])))"
    using f1 f2 grid same by (intro conjI) simp_all
  have p': "xy_forward ?self (FloatT ?x1) (2, 2) (LongT ?cx1) (LongT ?cy1) = Inr ?o1
            \<and> xy_forward ?self (FloatT ?x2) (2, 2) (LongT ?cx2) (LongT ?cy2) = Inr ?o2
            \<and> shape ?cx1 = [2, 1] \<and> shape ?cy1 = [2, 1] \<and> wf ?cx1 \<and> wf ?cy1
            \<and> shape ?cx2 = [2, 1] \<and> shape ?cy2 = [2, 1] \<and> wf ?cx2 \<and> wf ?cy2
            \<and> (\<forall>b'<2. b' \<noteq> 0 \<longrightarrow>
                  (\<forall>m<1. get ?cx1 [b', m] = get ?cx2 [b', m]
                        \<and> get ?cy1 [b', m] = get ?cy2 [b', m]
                        \<and> (\<forall>n<1. get ?x1 [b', m, n] = get ?x2 [b', m, n])))"
    using g1 g2 same' by (intro conjI) (simp_all add: wf_def numel_def)
  have s: "shape ?x1 = [2, 1, 1]" "shape ?x2 = [2, 1, 1]" by simp_all
  have b: "(0::nat) < 2" "(1::nat) < 2" "(1::nat) \<noteq> 0" "(0::nat) < 1" "(1::nat) < nat 2"
    "(0::nat) < nat 2" by simp_all
  have z: "get ?o1 [1, 0, 1, 0] = get ?o2 [1, 0, 1, 0]"
    by (rule no_cross_batch_bleed [OF s b(1) b(2) b(3) b(4) b(5) b(6), THEN conjunct1,
          THEN mp, OF p])
  have z': "get ?o1 [1, 0, 1, 0] = get ?o2 [1, 0, 1, 0]"
    by (rule no_cross_batch_bleed [OF s b(1) b(2) b(3) b(4) b(5) b(6), THEN conjunct2,
          THEN mp, OF p'])
  show ?thesis using f1 f2 g1 g2 z by (intro conjI)
qed

section \<open>The shape of the output\<close>

text \<open>
  Claim C6.  With features of shape \<open>(B, M, N)\<close>, a spatial size \<open>(H, W)\<close> and
  locations of shape \<open>(B, M, 2)\<close>, or two coordinate tensors of shape \<open>(B, M)\<close>,
  whatever either entry point returns has the shape \<open>(B, N, H, W)\<close> and as many
  elements.  Both entry points do return for such inputs when the coordinates lie
  inside the grid, the sizes are 64-bit integers and, for \<open>forward\<close>, there is at
  least one channel.
\<close>

theorem output_shape:
  assumes "shape x = [B, M, N]"
  shows "(forward self (FloatT x) (H, W) (LongT loc) = Inr out \<and> shape loc = [B, M, 2]
          \<longrightarrow> shape out = [B, N, nat H, nat W] \<and> wf out)
       \<and> (xy_forward self (FloatT x) (H, W) cx cy = Inr out'
            \<and> d_shape cx = [B, M] \<and> d_shape cy = [B, M] \<and> d_wf cx \<and> d_wf cy
          \<longrightarrow> shape out' = [B, N, nat H, nat W] \<and> wf out')
       \<and> (shape loc = [B, M, 2] \<and> 0 < N \<and> 0 \<le> H \<and> 0 \<le> W \<and> fits_int64 B N H W
            \<and> (\<forall>b<B. \<forall>m<M. in_grid H W (get loc [b, m, 0]) (get loc [b, m, 1]))
          \<longrightarrow> (\<exists>out. forward self (FloatT x) (H, W) (LongT loc) = Inr out))
       \<and> (shape lx = [B, M] \<and> shape ly = [B, M] \<and> wf lx \<and> wf ly
            \<and> 0 \<le> H \<and> 0 \<le> W \<and> fits_int64 B N H W
            \<and> (\<forall>b<B. \<forall>m<M. in_grid H W (get lx [b, m]) (get ly [b, m]))
          \<longrightarrow> (\<exists>out. xy_forward self (FloatT x) (H, W) (LongT lx) (LongT ly) = Inr out))"
proof (intro conjI impI)
  assume "forward self (FloatT x) (H, W) (LongT loc) = Inr out \<and> shape loc = [B, M, 2]"
  then have fw: "forward self (FloatT x) (H, W) (LongT loc) = Inr out"
    and sl: "shape loc = [B, M, 2]" by simp_all
  show "shape out = [B, N, nat H, nat W]" "wf out"
    using forward_fit(5,6) [OF fw assms sl] by simp_all
next
  assume "xy_forward self (FloatT x) (H, W) cx cy = Inr out'
            \<and> d_shape cx = [B, M] \<and> d_shape cy = [B, M] \<and> d_wf cx \<and> d_wf cy"
  then have fw: "xy_forward self (FloatT x) (H, W) cx cy = Inr out'"
    and sh: "d_shape cx = [B, M]" "d_shape cy = [B, M]" and wf: "d_wf cx" "d_wf cy"
    by simp_all
  show "shape out' = [B, N, nat H, nat W]" "wf out'"
    using xy_fit(5,6) [OF fw assms sh wf] by simp_all
next
  assume "shape loc = [B, M, 2] \<and> 0 < N \<and> 0 \<le> H \<and> 0 \<le> W \<and> fits_int64 B N H W
            \<and> (\<forall>b<B. \<forall>m<M. in_grid H W (get loc [b, m, 0]) (get loc [b, m, 1]))"
  then show "\<exists>out. forward self (FloatT x) (H, W) (LongT loc) = Inr out"
    using assms by (intro forward_returns [where B = B and M = M and N = N]) simp_all
next
  assume "shape lx = [B, M] \<and> shape ly = [B, M] \<and> wf lx \<and> wf ly
            \<and> 0 \<le> H \<and> 0 \<le> W \<and> fits_int64 B N H W
            \<and> (\<forall>b<B. \<forall>m<M. in_grid H W (get lx [b, m]) (get ly [b, m]))"
  then show "\<exists>out. xy_forward self (FloatT x) (H, W) (LongT lx) (LongT ly) = Inr out"
    using assms by (intro xy_forward_returns [where B = B and M = M and N = N]) simp_all
qed


theorem output_shape_witness:
  "forward \<lparr>scatter_type = ''add''\<rparr> (FloatT (Tensor [1, 1, 2] [1, 2])) (4, 4)
       (LongT (Tensor [1, 1, 2] [1, 2]))
     = Inr (Tensor [1, 2, 4, 4]
              [0, 0, 0, 0, 0, 0, 1, 0, 0, 0, 0, 0, 0, 0, 0, 0,
               0, 0, 0, 0, 0, 0, 2, 0, 0, 0, 0, 0, 0, 0, 0, 0])
   \<and> shape (Tensor [1, 2, 4, 4]
              [0, 0, 0, 0, 0, 0, 1, 0, 0, 0, 0, 0, 0, 0, 0, 0,
               0, 0, 0, 0, 0, 0, 2, 0, 0, 0, 0, 0, 0, 0, 0, 0 :: real]) = [1, 2, nat 4, nat 4]
   \<and> xy_forward \<lparr>scatter_type = ''add''\<rparr> (FloatT (Tensor [1, 1, 2] [1, 2])) (4, 4)
       (LongT (Tensor [1, 1] [2])) (LongT (Tensor [1, 1] [1]))
     = Inr (Tensor [1, 2, 4, 4]
              [0, 0, 0, 0, 0, 0, 0, 0, 0, 1, 0, 0, 0, 0, 0, 0,
               0, 0, 0, 0, 0, 0, 0, 0, 0, 2, 0, 0, 0, 0, 0, 0])
   \<and> shape (Tensor [1, 2, 4, 4]
              [0, 0, 0, 0, 0, 0, 0, 0, 0, 1, 0, 0, 0, 0, 0, 0,
               0, 0, 0, 0, 0, 0, 0, 0, 0, 2, 0, 0, 0, 0, 0, 0 :: real]) = [1, 2, nat 4, nat 4]
   \<and> (\<exists>out. forward \<lparr>scatter_type = ''add''\<rparr> (FloatT (Tensor [1, 1, 2] [1, 2])) (4, 4)
                (LongT (Tensor [1, 1, 2] [1, 2])) = Inr out)
   \<and> (\<exists>out. xy_forward \<lparr>scatter_type = ''add''\<rparr> (FloatT (Tensor [1, 1, 2] [1, 2])) (4, 4)
                (LongT (Tensor [1, 1] [2])) (LongT (Tensor [1, 1] [1])) = Inr out)"
proof -
  let ?self = "\<lparr>scatter_type = ''add''\<rparr>"
  let ?x = "Tensor [1, 1, 2] [1, 2 :: real]"
  let ?loc = "Tensor [1, 1, 2] [1, 2 :: int]"
  let ?cx = "Tensor [1, 1] [2 :: int]" and ?cy = "Tensor [1, 1] [1 :: int]"
  let ?F = "Tensor [1, 2, 4, 4]
              [0, 0, 0, 0, 0, 0, 1, 0, 0, 0, 0, 0, 0, 0, 0, 0,
               0, 0, 0, 0, 0, 0, 2, 0, 0, 0, 0, 0, 0, 0, 0, 0 :: real]"
  let ?G = "Tensor [1, 2, 4, 4]
              [0, 0, 0, 0, 0, 0, 0, 0, 0, 1, 0, 0, 0, 0, 0, 0,
               0, 0, 0, 0, 0, 0, 0, 0, 0, 2, 0, 0, 0, 0, 0, 0 :: real]"
  have f: "forward ?self (FloatT ?x) (4, 4) (LongT ?loc) = Inr ?F" by code_simp
  have g: "xy_forward ?self (FloatT ?x) (4, 4) (LongT ?cx) (LongT ?cy) = Inr ?G" by code_simp
  have s: "shape ?x = [1, 1, 2]" by simp
  note t = output_shape [OF s, where self = ?self and H = 4 and W = 4 and loc = ?loc
      and out = ?F and cx = "LongT ?cx" and cy = "LongT ?cy" and out' = ?G
      and lx = ?cx and ly = ?cy]
  have fit: "fits_int64 1 2 4 4" by (simp add: fits_int64_def int64_def)
  have p1: "forward ?self (FloatT ?x) (4, 4) (LongT ?loc) = Inr ?F \<and> shape ?loc = [1, 1, 2]"
    using f by simp
  have p2: "xy_forward ?self (FloatT ?x) (4, 4) (LongT ?cx) (LongT ?cy) = Inr ?G
            \<and> d_shape (LongT ?cx) = [1, 1] \<and> d_shape (LongT ?cy) = [1, 1]
            \<and> d_wf (LongT ?cx) \<and> d_wf (LongT ?cy)"
    using g by (simp add: wf_def numel_def)
  have p3: "shape ?loc = [1, 1, 2] \<and> (0::nat) < 2 \<and> (0::int) \<le> 4 \<and> (0::int) \<le> 4
            \<and> fits_int64 1 2 4 4
            \<and> (\<forall>b<1. \<forall>m<1. in_grid 4 4 (get ?loc [b, m, 0]) (get ?loc [b, m, 1]))"
    using fit by (simp add: in_grid_def get_def)
  have p4: "shape ?cx = [1, 1] \<and> shape ?cy = [1, 1] \<and> wf ?cx \<and> wf ?cy
            \<and> (0::int) \<le> 4 \<and> (0::int) \<le> 4 \<and> fits_int64 1 2 4 4
            \<and> (\<forall>b<1. \<forall>m<1. in_grid 4 4 (get ?cx [b, m]) (get ?cy [b, m]))"
    using fit by (simp add: in_grid_def get_def wf_def numel_def)
  have c1: "shape ?F = [1, 2, nat 4, nat 4]"
    using t [THEN conjunct1, THEN mp, OF p1] by (rule conjunct1)
  have c2: "shape ?G = [1, 2, nat 4, nat 4]"
    using t [THEN conjunct2, THEN conjunct1, THEN mp, OF p2] by (rule conjunct1)
  have c3: "\<exists>out. forward ?self (FloatT ?x) (4, 4) (LongT ?loc) = Inr out"
    by (rule t [THEN conjunct2, THEN conjunct2, THEN conjunct1, THEN mp, OF p3])
  have c4: "\<exists>out. xy_forward ?self (FloatT ?x) (4, 4) (LongT ?cx) (LongT ?cy) = Inr out"
    by (rule t [THEN conjunct2, THEN conjunct2, THEN conjunct2, THEN mp, OF p4])
  show ?thesis using f c1 g c2 c3 c4 by (intro conjI)
qed

section \<open>Disagreeing shapes\<close>




section \<open>Fractional coordinates\<close>




text \<open>
  Claim C8 (no input mutation).  Run either entry point on any store: whether the
  call returns or raises, every storage that existed before the call is the same
  after it, so every tensor that lived in the store before the call, the features
  and the coordinate tensors among them, reads the same values after the call; and
  the tensor a call returns lies in a storage allocated during the call.  The in-place
  operations of the source (\<^verbatim>\<open>mul_\<close>, \<^verbatim>\<open>+=\<close>, \<^verbatim>\<open>scatter_\<close>, \<^verbatim>\<open>scatter_add_\<close>) all write
  to tensors the call allocated itself.
\<close>

theorem inputs_unchanged:
  "(forward_st self x sz loc st = (res, st')
      \<longrightarrow> take (length st) st' = st
          \<and> (\<forall>r. sid r < length st \<longrightarrow> deref st' r = deref st r)
          \<and> (\<forall>out. res = Inr out \<longrightarrow> length st \<le> sid out))
   \<and> (xy_forward_st self x sz cx cy st = (res, st')
      \<longrightarrow> take (length st) st' = st
          \<and> (\<forall>r. sid r < length st \<longrightarrow> deref st' r = deref st r)
          \<and> (\<forall>out. res = Inr out \<longrightarrow> length st \<le> sid out))"
proof (intro conjI impI allI)
  assume a: "forward_st self x sz loc st = (res, st')"
  show "take (length st) st' = st" by (rule forward_st_frame(1) [OF a])
  show "deref st' r = deref st r" if "sid r < length st" for r
    by (rule forward_st_frame(3) [OF a that])
  show "length st \<le> sid out" if "res = Inr out" for out
    by (rule forward_st_frame(4) [OF a that])
next
  assume a: "xy_forward_st self x sz cx cy st = (res, st')"
  show "take (length st) st' = st" by (rule xy_forward_st_frame(1) [OF a])
  show "deref st' r = deref st r" if "sid r < length st" for r
    by (rule xy_forward_st_frame(3) [OF a that])
  show "length st \<le> sid out" if "res = Inr out" for out
    by (rule xy_forward_st_frame(4) [OF a that])
qed

theorem inputs_unchanged_witness:
  "forward_st \<lparr>scatter_type = ''add''\<rparr> (Ref 0 [1, 2, 1] [0, 1]) (2, 2) (Ref 1 [1, 2, 2] [0, 1, 2, 3])
       [FloatB [5, 7], LongB [1, 1, 1, 1]]
     = (Inr (Ref 7 [1, 1, 2, 2] [0, 1, 2, 3]),
        [FloatB [5, 7], LongB [1, 1, 1, 1], LongB [0], LongB [0, 0], LongB [2, 2],
         LongB [3, 3], LongB [3, 3], FloatB [0, 0, 0, 12]])
   \<and> take 2 [FloatB [5, 7], LongB [1, 1, 1, 1], LongB [0], LongB [0, 0], LongB [2, 2],
         LongB [3, 3], LongB [3, 3], FloatB [0, 0, 0, 12]]
       = [FloatB [5, 7], LongB [1, 1, 1, 1]]
   \<and> deref [FloatB [5, 7], LongB [1, 1, 1, 1], LongB [0], LongB [0, 0], LongB [2, 2],
         LongB [3, 3], LongB [3, 3], FloatB [0, 0, 0, 12]] (Ref 0 [1, 2, 1] [0, 1])
       = deref [FloatB [5, 7], LongB [1, 1, 1, 1]] (Ref 0 [1, 2, 1] [0, 1])
   \<and> deref [FloatB [5, 7], LongB [1, 1, 1, 1], LongB [0], LongB [0, 0], LongB [2, 2],
         LongB [3, 3], LongB [3, 3], FloatB [0, 0, 0, 12]] (Ref 1 [1, 2, 2] [0, 1, 2, 3])
       = deref [FloatB [5, 7], LongB [1, 1, 1, 1]] (Ref 1 [1, 2, 2] [0, 1, 2, 3])
   \<and> 2 \<le> sid (Ref 7 [1, 1, 2, 2] [0, 1, 2, 3])
   \<and> forward \<lparr>scatter_type = ''add''\<rparr> (FloatT (Tensor [1, 2, 1] [5, 7])) (2, 2)
        (LongT (Tensor [1, 2, 2] [1, 1, 1, 1]))
       = Inr (Tensor [1, 1, 2, 2] [0, 0, 0, 12])
   \<and> deref [FloatB [5, 7], LongB [1, 1, 1, 1], LongB [0], LongB [0, 0], LongB [2, 2],
         LongB [3, 3], LongB [3, 3], FloatB [0, 0, 0, 12]] (Ref 7 [1, 1, 2, 2] [0, 1, 2, 3])
       = FloatT (Tensor [1, 1, 2, 2] [0, 0, 0, 12])
   \<and> xy_forward_st \<lparr>scatter_type = ''cover''\<rparr> (Ref 0 [1, 2, 1] [0, 1]) (2, 2)
        (Ref 1 [1, 2] [0, 1]) (Ref 2 [1, 2] [0, 1])
        [FloatB [5, 7], FloatB [1, 1], LongB [1, 0]]
     = (Inr (Ref 7 [1, 1, 2, 2] [0, 1, 2, 3]),
        [FloatB [5, 7], FloatB [1, 1], LongB [1, 0], FloatB [2, 2], FloatB [3, 2],
         LongB [3, 2], LongB [3, 2], FloatB [0, 0, 7, 5]])
   \<and> take 3 [FloatB [5, 7], FloatB [1, 1], LongB [1, 0], FloatB [2, 2], FloatB [3, 2],
         LongB [3, 2], LongB [3, 2], FloatB [0, 0, 7, 5]]
       = [FloatB [5, 7], FloatB [1, 1], LongB [1, 0]]
   \<and> deref [FloatB [5, 7], FloatB [1, 1], LongB [1, 0], FloatB [2, 2], FloatB [3, 2],
         LongB [3, 2], LongB [3, 2], FloatB [0, 0, 7, 5]] (Ref 1 [1, 2] [0, 1])
       = deref [FloatB [5, 7], FloatB [1, 1], LongB [1, 0]] (Ref 1 [1, 2] [0, 1])
   \<and> 3 \<le> sid (Ref 7 [1, 1, 2, 2] [0, 1, 2, 3])"
proof -
  let ?x = "Ref 0 [1, 2, 1] [0, 1]" and ?loc = "Ref 1 [1, 2, 2] [0, 1, 2, 3]"
  let ?st = "[FloatB [5, 7], LongB [1, 1, 1, 1]]"
  let ?st' = "[FloatB [5, 7], LongB [1, 1, 1, 1], LongB [0], LongB [0, 0], LongB [2, 2],
         LongB [3, 3], LongB [3, 3], FloatB [0, 0, 0, 12]]"
  let ?out = "Ref 7 [1, 1, 2, 2] [0, 1, 2, 3]"
  let ?cx = "Ref 1 [1, 2] [0, 1]" and ?cy = "Ref 2 [1, 2] [0, 1]"
  let ?xt = "[FloatB [5, 7], FloatB [1, 1], LongB [1, 0]]"
  let ?xt' = "[FloatB [5, 7], FloatB [1, 1], LongB [1, 0], FloatB [2, 2], FloatB [3, 2],
         LongB [3, 2], LongB [3, 2], FloatB [0, 0, 7, 5]]"
  have run: "forward_st \<lparr>scatter_type = ''add''\<rparr> ?x (2, 2) ?loc ?st = (Inr ?out, ?st')"
    by code_simp
  have xrun: "xy_forward_st \<lparr>scatter_type = ''cover''\<rparr> ?x (2, 2) ?cx ?cy ?xt = (Inr ?out, ?xt')"
    by code_simp
  note fw = inputs_unchanged [THEN conjunct1, THEN mp, OF run]
  note xy = inputs_unchanged [THEN conjunct2, THEN mp, OF xrun]
  have l: "length ?st = 2" "length ?xt = 3" by simp_all
  have 1: "take 2 ?st' = ?st" using fw [THEN conjunct1] by (simp only: l)
  have 2: "deref ?st' ?x = deref ?st ?x"
    by (rule fw [THEN conjunct2, THEN conjunct1, THEN spec, THEN mp]) simp
  have 3: "deref ?st' ?loc = deref ?st ?loc"
    by (rule fw [THEN conjunct2, THEN conjunct1, THEN spec, THEN mp]) simp
  have 4: "2 \<le> sid ?out"
    using fw [THEN conjunct2, THEN conjunct2, THEN spec, THEN mp, OF refl] by (simp only: l)
  have 5: "forward \<lparr>scatter_type = ''add''\<rparr> (FloatT (Tensor [1, 2, 1] [5, 7])) (2, 2)
        (LongT (Tensor [1, 2, 2] [1, 1, 1, 1])) = Inr (Tensor [1, 1, 2, 2] [0, 0, 0, 12])"
    by code_simp
  have 6: "deref ?st' ?out = FloatT (Tensor [1, 1, 2, 2] [0, 0, 0, 12])"
    by code_simp
  have 7: "take 3 ?xt' = ?xt" using xy [THEN conjunct1] by (simp only: l)
  have 8: "deref ?xt' ?cx = deref ?xt ?cx"
    by (rule xy [THEN conjunct2, THEN conjunct1, THEN spec, THEN mp]) simp
  have 9: "3 \<le> sid ?out"
    using xy [THEN conjunct2, THEN conjunct2, THEN spec, THEN mp, OF refl] by (simp only: l)
  show ?thesis
    using run 1 2 3 4 5 6 xrun 7 8 9 by (intro conjI)
qed
end
